theory Spec2Isabelle
  imports Main
begin

section \<open>The Chord DHT node of DHTNode.py\<close>

text \<open>
  The node is a Python thread that owns a datagram socket.  Its handlers are modelled as
  functions from the node's fields to the updated fields and the list of datagrams handed
  to \<open>send\<close>, in the order of the calls.  Every exception of the source is a value of
  \<open>error\<close>; a handler that raises returns \<open>Inl\<close>, and the loop that called it ends.
\<close>

subsection \<open>Values\<close>

type_synonym address = "string \<times> nat"
type_synonym key = string
type_synonym val = string

datatype error = TypeError | IndexError | KeyError | UnpicklingError | EOFError

definition and_then :: "error + 'a \<Rightarrow> ('a \<Rightarrow> error + 'b) \<Rightarrow> error + 'b" where
  "and_then r f = (case r of Inl e \<Rightarrow> Inl e | Inr x \<Rightarrow> f x)"

text \<open>
  The method names of the protocol.  \<open>run\<close> compares \<open>output["method"]\<close> with
  \<open>"JOIN_REP"\<close> in its first loop and with the eight names of \<open>dispatched\<close> in its
  second; \<open>"ACK"\<close> and \<open>"NACK"\<close> are only ever sent.
\<close>

definition dispatched :: "string set" where
  "dispatched =
     {''JOIN_REQ'', ''NOTIFY'', ''PUT'', ''GET'', ''PREDECESSOR'', ''SUCCESSOR'',
      ''STABILIZE'', ''SUCCESSOR_REP''}"

definition protocol_methods :: "string set" where
  "protocol_methods = dispatched \<union> {''JOIN_REP'', ''ACK'', ''NACK''}"

text \<open>A method name that is none of the protocol's.\<close>

typedef other_method = "{n :: string. n \<notin> protocol_methods}"
  by (rule exI[of _ "[]"]) (simp add: protocol_methods_def dispatched_def)

text \<open>
  The message envelopes \<open>{"method": .., "args": {..}}\<close>, one constructor per method of
  the protocol, the fields in the order the source writes them, each field with the type
  of the values the nodes put there.  A field the source fills from an attribute that may
  hold \<open>None\<close> is an option.  \<open>PUT\<close> and \<open>GET\<close> carry \<open>"from"\<close> only when forwarded
  by a node; \<open>ACK\<close> carries \<open>"args"\<close> only when it answers a \<open>GET\<close>.  \<open>OTHER n\<close> is an
  envelope with a method name outside the protocol, whatever its \<open>"args"\<close>.
\<close>

datatype msg =
    JOIN_REQ address int
  | JOIN_REP int "address option"
  | NOTIFY int address
  | PUT key val "address option"
  | GET key "address option"
  | PREDECESSOR
  | SUCCESSOR int address
  | STABILIZE "int option"
  | SUCCESSOR_REP int int "address option"
  | ACK "val option"
  | NACK
  | OTHER other_method

text \<open>The string under \<open>"method"\<close> in each envelope.\<close>

fun method_of :: "msg \<Rightarrow> string" where
  "method_of (JOIN_REQ a i) = ''JOIN_REQ''"
| "method_of (JOIN_REP i a) = ''JOIN_REP''"
| "method_of (NOTIFY i a) = ''NOTIFY''"
| "method_of (PUT k v f) = ''PUT''"
| "method_of (GET k f) = ''GET''"
| "method_of PREDECESSOR = ''PREDECESSOR''"
| "method_of (SUCCESSOR i a) = ''SUCCESSOR''"
| "method_of (STABILIZE p) = ''STABILIZE''"
| "method_of (SUCCESSOR_REP r i a) = ''SUCCESSOR_REP''"
| "method_of (ACK x) = ''ACK''"
| "method_of NACK = ''NACK''"
| "method_of (OTHER n) = Rep_other_method n"

text \<open>
  A received payload, by what \<open>pickle.loads\<close> and the subscripts \<open>output["method"]\<close>
  and \<open>output["args"]\<close> make of it:
  \<^item> \<open>Undecodable e\<close>: bytes on which \<open>pickle.loads\<close> raises the exception \<open>e\<close>
    (UnpicklingError, EOFError on truncated data, and others);
  \<^item> \<open>NotADict\<close>: bytes that unpickle to a value that is not a dictionary (a number, a
    string, a list, \<open>None\<close>), on which \<open>output["method"]\<close> raises TypeError;
  \<^item> \<open>MissingMethod\<close>: a dictionary without the key \<open>"method"\<close>, on which the subscript
    raises KeyError;
  \<^item> \<open>MissingArgs n\<close>: a dictionary with method name \<open>n\<close> and no key \<open>"args"\<close>;
  \<^item> \<open>Message m\<close>: an envelope with its fields.
  An envelope that names a method of the protocol and whose \<open>"args"\<close> is present but lacks
  a field, or holds a value of another type than the nodes send, is not a value of this
  type.
\<close>

datatype received =
    Undecodable error
  | NotADict
  | MissingMethod
  | MissingArgs string
  | Message msg

type_synonym outbox = "(address \<times> msg) list"

subsection \<open>Ring arithmetic (utils.py)\<close>

text \<open>
  Modelled from the spec: \<open>utils.contains\<close> is imported by DHTNode.py and is not among
  the sources.  The spec defines it as membership of \<open>ident\<close> in the clockwise interval
  that starts just after \<open>origin\<close> and ends at \<open>boundary\<close> inclusive, wrapping around
  when \<open>boundary < origin\<close> numerically.
\<close>

definition contains :: "int \<Rightarrow> int \<Rightarrow> int \<Rightarrow> bool" where
  "contains origin boundary ident =
     (if boundary < origin then origin < ident \<or> ident \<le> boundary
      else origin < ident \<and> ident \<le> boundary)"

text \<open>
  \<open>utils.dht_hash\<close> is not among the sources either and the spec only asks it to be a
  deterministic map into the ring: it is the parameter \<open>H\<close> of the functions that call it.
\<close>

subsection \<open>Python list subscripts\<close>

text \<open>
  A subscript \<open>i\<close> of a list of \<open>n\<close> elements denotes position \<open>i\<close> when
  \<open>0 \<le> i < n\<close> and position \<open>n + i\<close> when \<open>- n \<le> i < 0\<close>; any other subscript
  raises IndexError.
\<close>

definition subscript :: "nat \<Rightarrow> int \<Rightarrow> nat option" where
  "subscript n i =
     (if 0 \<le> i \<and> i < int n then Some (nat i)
      else if i < 0 \<and> - int n \<le> i then Some (nat (int n + i))
      else None)"

definition py_get :: "'a list \<Rightarrow> int \<Rightarrow> error + 'a" where
  "py_get xs i =
     (case subscript (length xs) i of None \<Rightarrow> Inl IndexError | Some j \<Rightarrow> Inr (xs ! j))"

definition py_set :: "'a list \<Rightarrow> int \<Rightarrow> 'a \<Rightarrow> error + 'a list" where
  "py_set xs i v =
     (case subscript (length xs) i of
        None \<Rightarrow> Inl IndexError
      | Some j \<Rightarrow> Inr (xs[j := v]))"

subsection \<open>class FingerTable\<close>

text \<open>
  The list attribute \<open>self.finger_table\<close> is the field \<open>as_list\<close>, the name of the
  property that returns it, since the node has an attribute \<open>finger_table\<close> of its own.
\<close>

record FingerTable =
  as_list :: "(int \<times> address option) list"
  m_bits :: nat
  node_id :: int
  node_addr :: address

definition FingerTable_init :: "int \<Rightarrow> address \<Rightarrow> nat \<Rightarrow> FingerTable" where
  "FingerTable_init nid naddr m =
     \<lparr>as_list = replicate m (nid, Some naddr), m_bits = m, node_id = nid, node_addr = naddr\<rparr>"

fun fill_loop ::
  "(int \<times> address option) list \<Rightarrow> int \<Rightarrow> address option \<Rightarrow> nat list
     \<Rightarrow> error + (int \<times> address option) list" where
  "fill_loop xs nid naddr [] = Inr xs"
| "fill_loop xs nid naddr (i # rest) =
     (case py_set xs (int i - 1) (nid, naddr) of
        Inl e \<Rightarrow> Inl e
      | Inr xs' \<Rightarrow> fill_loop xs' nid naddr rest)"

definition fill :: "FingerTable \<Rightarrow> int \<Rightarrow> address option \<Rightarrow> error + FingerTable" where
  "fill ft nid naddr =
     and_then (fill_loop (as_list ft) nid naddr [1..<m_bits ft + 1])
       (\<lambda>xs. Inr (ft\<lparr>as_list := xs\<rparr>))"

text \<open>
  \<open>update\<close> is called with the result of \<open>getIdxFromId\<close>, which is \<open>None\<close> when its loop
  ends without a match; \<open>None - 1\<close> raises TypeError.
\<close>

definition update ::
  "FingerTable \<Rightarrow> int option \<Rightarrow> int \<Rightarrow> address option \<Rightarrow> error + FingerTable" where
  "update ft index nid naddr =
     (case index of
        None \<Rightarrow> Inl TypeError
      | Some i \<Rightarrow> and_then (py_set (as_list ft) (i - 1) (nid, naddr))
                   (\<lambda>xs. Inr (ft\<lparr>as_list := xs\<rparr>)))"

fun find_loop :: "FingerTable \<Rightarrow> int \<Rightarrow> nat list \<Rightarrow> error + address option" where
  "find_loop ft ident [] =
     (case py_get (as_list ft) (- 1) of Inl e \<Rightarrow> Inl e | Inr ent \<Rightarrow> Inr (snd ent))"
| "find_loop ft ident (i # rest) =
     (case py_get (as_list ft) (int i) of
        Inl e \<Rightarrow> Inl e
      | Inr ent \<Rightarrow>
          if contains (node_id ft) (fst ent) ident
          then (case py_get (as_list ft) (int i - 1) of
                  Inl e \<Rightarrow> Inl e
                | Inr prev \<Rightarrow> Inr (snd prev))
          else find_loop ft ident rest)"

definition find_ft :: "FingerTable \<Rightarrow> int \<Rightarrow> error + address option" where
  "find_ft ft ident = find_loop ft ident [0..<m_bits ft]"

fun refresh_loop ::
  "FingerTable \<Rightarrow> nat list \<Rightarrow> error + (int \<times> int \<times> address option) list" where
  "refresh_loop ft [] = Inr []"
| "refresh_loop ft (i # rest) =
     (case py_get (as_list ft) (int i) of
        Inl e \<Rightarrow> Inl e
      | Inr ent \<Rightarrow>
          (case refresh_loop ft rest of
             Inl e \<Rightarrow> Inl e
           | Inr r \<Rightarrow>
               Inr ((int i + 1, (node_id ft + 2 ^ i) mod 2 ^ m_bits ft, snd ent) # r)))"

definition refresh :: "FingerTable \<Rightarrow> error + (int \<times> int \<times> address option) list" where
  "refresh ft = refresh_loop ft [0..<m_bits ft]"

fun getIdx_loop :: "FingerTable \<Rightarrow> int \<Rightarrow> nat list \<Rightarrow> int option" where
  "getIdx_loop ft ident [] = None"
| "getIdx_loop ft ident (i # rest) =
     (let target = (node_id ft + 2 ^ i) mod 2 ^ m_bits ft
      in if contains (node_id ft) target ident then Some (int i + 1)
         else getIdx_loop ft ident rest)"

definition getIdxFromId :: "FingerTable \<Rightarrow> int \<Rightarrow> int option" where
  "getIdxFromId ft ident = getIdx_loop ft ident [0..<m_bits ft]"

subsection \<open>class DHTNode\<close>

text \<open>
  The attributes of the node; \<open>is_done\<close> is \<open>self.done\<close>.  The socket is the outbox the
  handlers return, the logger is left out.
\<close>

record DHTNode =
  is_done :: bool
  identification :: int
  addr :: address
  dht_address :: "address option"
  inside_dht :: bool
  successor_id :: "int option"
  successor_addr :: "address option"
  predecessor_id :: "int option"
  predecessor_addr :: "address option"
  finger_table :: FingerTable
  keystore :: "key \<rightharpoonup> val"

text \<open>
  The constructor hashes \<open>address.__str__()\<close>: \<open>S\<close> is the string of an address and
  \<open>H\<close> the hash.  \<open>FingerTable\<close> is built with its default of 10 bits.
\<close>

definition DHTNode_init ::
  "(string \<Rightarrow> int) \<Rightarrow> (address \<Rightarrow> string) \<Rightarrow> address \<Rightarrow> address option \<Rightarrow> DHTNode" where
  "DHTNode_init H S address dht =
     (let ident = H (S address) in
      \<lparr>is_done = False,
       identification = ident,
       addr = address,
       dht_address = dht,
       inside_dht = (dht = None),
       successor_id = (if dht = None then Some ident else None),
       successor_addr = (if dht = None then Some address else None),
       predecessor_id = None,
       predecessor_addr = None,
       finger_table = FingerTable_init ident address 10,
       keystore = Map.empty\<rparr>)"

text \<open>\<open>socket.sendto\<close> raises TypeError when the address is \<open>None\<close>.\<close>

definition send :: "address option \<Rightarrow> msg \<Rightarrow> error + outbox" where
  "send address m = (case address of None \<Rightarrow> Inl TypeError | Some a \<Rightarrow> Inr [(a, m)])"

text \<open>
  Where the source passes \<open>self.successor_id\<close> or \<open>self.predecessor_id\<close> to
  \<open>contains\<close> and the attribute is \<open>None\<close>, the comparison of \<open>None\<close> with an integer
  raises TypeError.
\<close>

definition node_join :: "DHTNode \<Rightarrow> address \<Rightarrow> int \<Rightarrow> error + DHTNode \<times> outbox" where
  "node_join st a ident =
     (if successor_id st = Some (identification st) then
        and_then (fill (finger_table st) ident (Some a)) (\<lambda>ft.
        and_then (send (Some a) (JOIN_REP (identification st) (Some (addr st)))) (\<lambda>out.
          Inr (st\<lparr>successor_id := Some ident, successor_addr := Some a,
                  finger_table := ft\<rparr>, out)))
      else
        (case successor_id st of
           None \<Rightarrow> Inl TypeError
         | Some s \<Rightarrow>
             if contains (identification st) s ident then
               and_then (fill (finger_table st) ident (Some a)) (\<lambda>ft.
               and_then (send (Some a) (JOIN_REP s (successor_addr st))) (\<lambda>out.
                 Inr (st\<lparr>successor_id := Some ident, successor_addr := Some a,
                         finger_table := ft\<rparr>, out)))
             else
               and_then (send (successor_addr st) (JOIN_REQ a ident)) (\<lambda>out.
                 Inr (st, out))))"

definition get_successor :: "DHTNode \<Rightarrow> int \<Rightarrow> address \<Rightarrow> error + outbox" where
  "get_successor st asking_id asking_addr =
     (case successor_id st of
        None \<Rightarrow> Inl TypeError
      | Some s \<Rightarrow>
          if contains (identification st) s asking_id then
            send (Some asking_addr) (SUCCESSOR_REP asking_id s (successor_addr st))
          else
            send (successor_addr st) (SUCCESSOR asking_id asking_addr))"

definition notify :: "DHTNode \<Rightarrow> int \<Rightarrow> address \<Rightarrow> DHTNode" where
  "notify st pid paddr =
     (case predecessor_id st of
        None \<Rightarrow> st\<lparr>predecessor_id := Some pid, predecessor_addr := Some paddr\<rparr>
      | Some p \<Rightarrow>
          if contains p (identification st) pid
          then st\<lparr>predecessor_id := Some pid, predecessor_addr := Some paddr\<rparr>
          else st)"

text \<open>
  The refresh loop of \<open>stabilize\<close>: iteration \<open>i\<close> calls \<open>refresh()\<close> again, subscripts
  its result and hands the target to \<open>get_successor\<close>.
\<close>

fun stabilize_loop :: "DHTNode \<Rightarrow> nat list \<Rightarrow> error + outbox" where
  "stabilize_loop st [] = Inr []"
| "stabilize_loop st (i # rest) =
     (case refresh (finger_table st) of
        Inl e \<Rightarrow> Inl e
      | Inr r \<Rightarrow>
          (case py_get r (int i) of
             Inl e \<Rightarrow> Inl e
           | Inr ent \<Rightarrow>
               (case get_successor st (fst (snd ent)) (addr st) of
                  Inl e \<Rightarrow> Inl e
                | Inr out \<Rightarrow>
                    (case stabilize_loop st rest of
                       Inl e \<Rightarrow> Inl e
                     | Inr out' \<Rightarrow> Inr (out @ out')))))"

definition stabilize ::
  "DHTNode \<Rightarrow> int option \<Rightarrow> address \<Rightarrow> error + DHTNode \<times> outbox" where
  "stabilize st from_id a =
     and_then
       (case from_id of
          None \<Rightarrow> Inr st
        | Some f \<Rightarrow>
            (case successor_id st of
               None \<Rightarrow> Inl TypeError
             | Some s \<Rightarrow>
                 if contains (identification st) s f then
                   and_then (update (finger_table st) (Some 1) f (Some a)) (\<lambda>ft.
                     Inr (st\<lparr>successor_id := Some f, successor_addr := Some a,
                             finger_table := ft\<rparr>))
                 else Inr st))
       (\<lambda>st1.
          and_then (send (successor_addr st1) (NOTIFY (identification st1) (addr st1)))
            (\<lambda>out1.
          and_then (refresh (finger_table st1)) (\<lambda>r.
          and_then (stabilize_loop st1 [0..<length r]) (\<lambda>out2.
            Inr (st1, out1 @ out2)))))"

definition put ::
  "(key \<Rightarrow> int) \<Rightarrow> DHTNode \<Rightarrow> key \<Rightarrow> val \<Rightarrow> address \<Rightarrow> error + DHTNode \<times> outbox" where
  "put H st k v address =
     (let key_hash = H k in
      case successor_id st of
        None \<Rightarrow> Inl TypeError
      | Some s \<Rightarrow>
          if contains (identification st) s key_hash then
            and_then (send (successor_addr st) (PUT k v (Some address))) (\<lambda>out.
              Inr (st, out))
          else
            (case predecessor_id st of
               None \<Rightarrow> Inl TypeError
             | Some p \<Rightarrow>
                 if contains p (identification st) key_hash then
                   (if keystore st k = None then
                      and_then (send (Some address) (ACK None)) (\<lambda>out.
                        Inr (st\<lparr>keystore := (keystore st)(k \<mapsto> v)\<rparr>, out))
                    else
                      and_then (send (Some address) NACK) (\<lambda>out. Inr (st, out)))
                 else
                   and_then (find_ft (finger_table st) key_hash) (\<lambda>hop.
                   and_then (send hop (PUT k v (Some address))) (\<lambda>out.
                     Inr (st, out)))))"

definition get :: "(key \<Rightarrow> int) \<Rightarrow> DHTNode \<Rightarrow> key \<Rightarrow> address \<Rightarrow> error + outbox" where
  "get H st k address =
     (let key_hash = H k in
      case successor_id st of
        None \<Rightarrow> Inl TypeError
      | Some s \<Rightarrow>
          if contains (identification st) s key_hash then
            send (successor_addr st) (GET k (Some address))
          else
            (case predecessor_id st of
               None \<Rightarrow> Inl TypeError
             | Some p \<Rightarrow>
                 if contains p (identification st) key_hash then
                   (case keystore st k of
                      Some w \<Rightarrow> send (Some address) (ACK (Some w))
                    | None \<Rightarrow> send (Some address) NACK)
                 else
                   and_then (find_ft (finger_table st) key_hash) (\<lambda>hop.
                     send hop (GET k (Some address)))))"

subsection \<open>DHTNode.run\<close>

text \<open>
  \<open>recv\<close> gives a payload and the sender's address, or no payload (a timeout or an empty
  datagram): the argument \<open>rcv\<close>.  \<open>join_step\<close> is one iteration of the first loop of
  \<open>run\<close>, \<open>run_step\<close> one iteration of the second.
\<close>

definition join_step ::
  "DHTNode \<Rightarrow> (received \<times> address) option \<Rightarrow> error + DHTNode \<times> outbox" where
  "join_step st rcv =
     and_then (send (dht_address st) (JOIN_REQ (addr st) (identification st))) (\<lambda>out.
       case rcv of
         None \<Rightarrow> Inr (st, out)
       | Some (payload, a) \<Rightarrow>
           (case payload of
              Undecodable e \<Rightarrow> Inl e
            | NotADict \<Rightarrow> Inl TypeError
            | MissingMethod \<Rightarrow> Inl KeyError
            | MissingArgs meth \<Rightarrow>
                if meth = ''JOIN_REP'' then Inl KeyError else Inr (st, out)
            | Message m \<Rightarrow>
                (case m of
                   JOIN_REP sid saddr \<Rightarrow>
                     and_then (fill (finger_table st) sid saddr) (\<lambda>ft.
                       Inr (st\<lparr>successor_id := Some sid, successor_addr := saddr,
                               finger_table := ft, inside_dht := True\<rparr>, out))
                 | _ \<Rightarrow> Inr (st, out))))"

definition dispatch ::
  "(key \<Rightarrow> int) \<Rightarrow> DHTNode \<Rightarrow> msg \<Rightarrow> address \<Rightarrow> error + DHTNode \<times> outbox" where
  "dispatch H st m a =
     (case m of
        JOIN_REQ ra rid \<Rightarrow> node_join st ra rid
      | NOTIFY pid paddr \<Rightarrow> Inr (notify st pid paddr, [])
      | PUT k v f \<Rightarrow> put H st k v (case f of None \<Rightarrow> a | Some x \<Rightarrow> x)
      | GET k f \<Rightarrow>
          and_then (get H st k (case f of None \<Rightarrow> a | Some x \<Rightarrow> x)) (\<lambda>out. Inr (st, out))
      | PREDECESSOR \<Rightarrow>
          and_then (send (Some a) (STABILIZE (predecessor_id st))) (\<lambda>out. Inr (st, out))
      | SUCCESSOR i f \<Rightarrow> and_then (get_successor st i f) (\<lambda>out. Inr (st, out))
      | STABILIZE p \<Rightarrow> stabilize st p a
      | SUCCESSOR_REP r sid saddr \<Rightarrow>
          and_then
            (update (finger_table st) (getIdxFromId (finger_table st) r) sid saddr)
            (\<lambda>ft. Inr (st\<lparr>finger_table := ft\<rparr>, []))
      | _ \<Rightarrow> Inr (st, []))"

definition run_step ::
  "(key \<Rightarrow> int) \<Rightarrow> DHTNode \<Rightarrow> (received \<times> address) option
     \<Rightarrow> error + DHTNode \<times> outbox" where
  "run_step H st rcv =
     (case rcv of
        None \<Rightarrow> and_then (send (successor_addr st) PREDECESSOR) (\<lambda>out. Inr (st, out))
      | Some (payload, a) \<Rightarrow>
          (case payload of
             Undecodable e \<Rightarrow> Inl e
           | NotADict \<Rightarrow> Inl TypeError
           | MissingMethod \<Rightarrow> Inl KeyError
           | MissingArgs meth \<Rightarrow>
               if meth \<in> {''JOIN_REQ'', ''NOTIFY'', ''PUT'', ''GET'', ''SUCCESSOR'',
                           ''STABILIZE'', ''SUCCESSOR_REP''}
               then Inl KeyError
               else if meth = ''PREDECESSOR'' then dispatch H st PREDECESSOR a
               else Inr (st, [])
           | Message m \<Rightarrow> dispatch H st m a))"

text \<open>
  The second loop of \<open>run\<close> over the finite sequence of what \<open>recv\<close> returns: it goes on
  while \<open>self.done\<close> is false and ends at the first exception.
\<close>

fun run_loop ::
  "(key \<Rightarrow> int) \<Rightarrow> DHTNode \<Rightarrow> (received \<times> address) option list
     \<Rightarrow> error + DHTNode \<times> outbox" where
  "run_loop H st [] = Inr (st, [])"
| "run_loop H st (rcv # rest) =
     (if is_done st then Inr (st, [])
      else
        (case run_step H st rcv of
           Inl e \<Rightarrow> Inl e
         | Inr (st', out) \<Rightarrow>
             (case run_loop H st' rest of
                Inl e \<Rightarrow> Inl e
              | Inr (st'', out') \<Rightarrow> Inr (st'', out @ out'))))"

subsection \<open>Invariants of a running node\<close>

text \<open>
  What holds of a node in the second loop of \<open>run\<close>: it is inside the DHT, its successor
  is known, and its finger table has the \<open>m_bits\<close> entries the constructor gave it.
\<close>

definition active :: "DHTNode \<Rightarrow> bool" where
  "active st =
     (inside_dht st \<and> successor_id st \<noteq> None \<and> successor_addr st \<noteq> None \<and>
      length (as_list (finger_table st)) = m_bits (finger_table st) \<and>
      0 < m_bits (finger_table st))"

text \<open>Entry 1 of the finger table is the node's current successor.\<close>

definition entry1_is_successor :: "DHTNode \<Rightarrow> bool" where
  "entry1_is_successor st =
     (case as_list (finger_table st) of
        [] \<Rightarrow> False
      | e # rest \<Rightarrow> successor_id st = Some (fst e) \<and> successor_addr st = snd e)"

text \<open>The ring position that finger-table entry \<open>i + 1\<close> stands for.\<close>

abbreviation target :: "FingerTable \<Rightarrow> nat \<Rightarrow> int" where
  "target ft i \<equiv> (node_id ft + 2 ^ i) mod 2 ^ m_bits ft"

subsection \<open>Example nodes\<close>

text \<open>
  \<open>hash_const h\<close> stands in for \<open>dht_hash\<close> where an example needs a string hashed to
  \<open>h\<close>.  The nodes: one that started a ring alone (identifier 100), one still joining
  (identifier 40), and two nodes, 10 and 30, that joined a ring and were then notified by
  node 20: node 10 has successor 30 and predecessor 20, node 30 has successor 10 and
  predecessor 20.
\<close>

definition hash_const :: "int \<Rightarrow> string \<Rightarrow> int" where
  "hash_const h s = h"

definition solo_node :: DHTNode where
  "solo_node = DHTNode_init (hash_const 100) fst (''10.0.0.1'', 5000) None"

definition joining_node :: DHTNode where
  "joining_node =
     DHTNode_init (hash_const 40) fst (''10.0.0.1'', 5004) (Some (''10.0.0.1'', 5000))"

definition ring_node :: DHTNode where
  "ring_node =
     \<lparr>is_done = False, identification = 10, addr = (''10.0.0.1'', 5001),
      dht_address = Some (''10.0.0.1'', 5000), inside_dht = True,
      successor_id = Some 30, successor_addr = Some (''10.0.0.1'', 5003),
      predecessor_id = Some 20, predecessor_addr = Some (''10.0.0.1'', 5002),
      finger_table =
        \<lparr>as_list = replicate 10 (30, Some (''10.0.0.1'', 5003)), m_bits = 10,
         node_id = 10, node_addr = (''10.0.0.1'', 5001)\<rparr>,
      keystore = Map.empty\<rparr>"

definition peer_node :: DHTNode where
  "peer_node =
     \<lparr>is_done = False, identification = 30, addr = (''10.0.0.1'', 5003),
      dht_address = Some (''10.0.0.1'', 5000), inside_dht = True,
      successor_id = Some 10, successor_addr = Some (''10.0.0.1'', 5001),
      predecessor_id = Some 20, predecessor_addr = Some (''10.0.0.1'', 5002),
      finger_table =
        \<lparr>as_list = replicate 10 (10, Some (''10.0.0.1'', 5001)), m_bits = 10,
         node_id = 30, node_addr = (''10.0.0.1'', 5003)\<rparr>,
      keystore = Map.empty\<rparr>"

section \<open>Basic facts\<close>

lemma hash_const_apply [simp]: "hash_const h s = h"
  by (simp add: hash_const_def)

lemma and_then_Inr [simp]: "and_then (Inr x) f = f x"
  by (simp add: and_then_def)

lemma and_then_Inl [simp]: "and_then (Inl e) f = Inl e"
  by (simp add: and_then_def)

lemma send_Some [simp]: "send (Some a) m = Inr [(a, m)]"
  by (simp add: send_def)

lemma send_None [simp]: "send None m = Inl TypeError"
  by (simp add: send_def)

lemma subscript_nat [simp]: "i < n \<Longrightarrow> subscript n (int i) = Some i"
  by (simp add: subscript_def)

lemma subscript_minus1 [simp]: "0 < n \<Longrightarrow> subscript n (- 1) = Some (n - 1)"
  by (simp add: subscript_def nat_diff_distrib')

lemma py_get_nat: "i < length xs \<Longrightarrow> py_get xs (int i) = Inr (xs ! i)"
  by (simp add: py_get_def)

lemma py_get_last: "xs \<noteq> [] \<Longrightarrow> py_get xs (- 1) = Inr (last xs)"
  by (simp add: py_get_def last_conv_nth)

lemma py_set_nat: "i < length xs \<Longrightarrow> py_set xs (int i) v = Inr (xs[i := v])"
  by (simp add: py_set_def)

subsection \<open>The loops of FingerTable on a table of \<open>m_bits\<close> entries\<close>

lemma fill_loop_upt:
  "n \<le> length xs \<Longrightarrow> k \<le> n \<Longrightarrow>
   fill_loop xs nid naddr [Suc k..<Suc n] =
     Inr (take k xs @ replicate (n - k) (nid, naddr) @ drop n xs)"
proof (induction "n - k" arbitrary: k xs)
  case 0
  then show ?case by simp
next
  case (Suc d)
  then have kn: "k < n" by simp
  have step: "[Suc k..<Suc n] = Suc k # [Suc (Suc k)..<Suc n]"
    using kn by (simp add: upt_conv_Cons)
  have set: "py_set xs (int (Suc k) - 1) (nid, naddr) = Inr (xs[k := (nid, naddr)])"
    using kn Suc.prems py_set_nat[of k xs "(nid, naddr)"] by simp
  have "fill_loop (xs[k := (nid, naddr)]) nid naddr [Suc (Suc k)..<Suc n]
        = Inr (take (Suc k) (xs[k := (nid, naddr)]) @ replicate (n - Suc k) (nid, naddr)
               @ drop n (xs[k := (nid, naddr)]))"
    using Suc.hyps(1)[of "Suc k" "xs[k := (nid, naddr)]"] Suc.hyps(2) Suc.prems kn by simp
  moreover have "take (Suc k) (xs[k := (nid, naddr)]) = take k xs @ [(nid, naddr)]"
    using kn Suc.prems by (simp add: take_Suc_conv_app_nth)
  moreover have "replicate (n - k) (nid, naddr) = (nid, naddr) # replicate (n - Suc k) (nid, naddr)"
    using kn by (metis Suc_diff_Suc replicate_Suc)
  ultimately show ?case using step set kn by simp
qed

lemma fill_ok:
  assumes "length (as_list ft) = m_bits ft"
  shows "fill ft nid naddr = Inr (ft\<lparr>as_list := replicate (m_bits ft) (nid, naddr)\<rparr>)"
  using fill_loop_upt[of "m_bits ft" "as_list ft" 0 nid naddr] assms
  by (simp add: fill_def)

lemma find_loop_char:
  assumes "as_list ft \<noteq> []" and "\<forall>i \<in> set is. i < length (as_list ft)"
  shows "find_loop ft t is =
    (case List.find (\<lambda>i. contains (node_id ft) (fst (as_list ft ! i)) t) is of
       None \<Rightarrow> Inr (snd (last (as_list ft)))
     | Some i \<Rightarrow> Inr (snd (if i = 0 then last (as_list ft) else as_list ft ! (i - 1))))"
  using assms
proof (induction "is")
  case Nil
  then show ?case by (simp add: py_get_last)
next
  case (Cons i rest)
  have i: "i < length (as_list ft)" using Cons.prems by simp
  have prev: "py_get (as_list ft) (int i - 1) =
      Inr (if i = 0 then last (as_list ft) else as_list ft ! (i - 1))"
  proof (cases i)
    case 0
    then show ?thesis using Cons.prems(1) by (simp add: py_get_last)
  next
    case (Suc j)
    then have "int i - 1 = int j" by simp
    then show ?thesis using py_get_nat[of j "as_list ft"] i Suc by simp
  qed
  show ?case using Cons i prev by (simp add: py_get_nat)
qed

lemma refresh_loop_char:
  assumes "\<forall>i \<in> set is. i < length (as_list ft)"
  shows "refresh_loop ft is =
    Inr (map (\<lambda>i. (int i + 1, (node_id ft + 2 ^ i) mod 2 ^ m_bits ft, snd (as_list ft ! i))) is)"
  using assms by (induction "is") (simp_all add: py_get_nat)

lemma refresh_ok:
  assumes "length (as_list ft) = m_bits ft"
  shows "refresh ft =
    Inr (map (\<lambda>i. (int i + 1, (node_id ft + 2 ^ i) mod 2 ^ m_bits ft, snd (as_list ft ! i)))
          [0..<m_bits ft])"
  using assms by (simp add: refresh_def refresh_loop_char)

lemma getIdx_loop_None:
  "getIdx_loop ft t is = None \<longleftrightarrow>
     (\<forall>i \<in> set is. \<not> contains (node_id ft) ((node_id ft + 2 ^ i) mod 2 ^ m_bits ft) t)"
  by (induction "is") (simp_all add: Let_def)

lemma getIdx_loop_Some:
  "getIdx_loop ft t is = Some j \<Longrightarrow> \<exists>i \<in> set is. j = int i + 1"
  by (induction "is") (auto simp: Let_def split: if_splits)

lemma find_upt_first:
  assumes "i < m" and "P i" and "\<forall>j<i. \<not> P j"
  shows "List.find P [0..<m] = Some i"
  using assms by (auto simp: find_Some_iff)

lemma find_upt_None:
  assumes "\<forall>j<m. \<not> P j"
  shows "List.find P [0..<m] = None"
  using assms by (simp add: find_None_iff)

lemma getIdxFromId_range:
  assumes "getIdxFromId ft r = Some j"
  shows "\<exists>i < m_bits ft. j = int i + 1"
  using getIdx_loop_Some[of ft r "[0..<m_bits ft]" j] assms
  by (auto simp: getIdxFromId_def)

lemma update1_ok:
  assumes "as_list ft \<noteq> []"
  shows "update ft (Some 1) nid na = Inr (ft\<lparr>as_list := (as_list ft)[0 := (nid, na)]\<rparr>)"
  using assms py_set_nat[of 0 "as_list ft" "(nid, na)"] by (simp add: update_def)

lemma update_shape:
  assumes "update ft idx nid na = Inr ft'"
  shows "length (as_list ft') = length (as_list ft) \<and> m_bits ft' = m_bits ft"
  using assms
  by (auto simp: update_def py_set_def and_then_def split: option.splits sum.splits)


section \<open>The handlers\<close>

subsection \<open>What each handler does to the key/value store\<close>

lemma node_join_keystore:
  "node_join st ra rid = Inr (st', out) \<Longrightarrow> keystore st' = keystore st"
  by (auto simp: node_join_def and_then_def split: if_splits sum.splits option.splits)

lemma stabilize_keystore:
  "stabilize st p a = Inr (st', out) \<Longrightarrow> keystore st' = keystore st"
  by (auto simp: stabilize_def and_then_def split: if_splits sum.splits option.splits)

lemma notify_keystore: "keystore (notify st pid paddr) = keystore st"
  by (simp add: notify_def split: option.splits)

lemma put_keystore:
  assumes "put H st k v a = Inr (st', out)"
  shows "keystore st' = keystore st \<or>
         (keystore st k = None \<and>
          (\<exists>s p. successor_id st = Some s \<and> \<not> contains (identification st) s (H k) \<and>
                 predecessor_id st = Some p \<and> contains p (identification st) (H k)) \<and>
          keystore st' = (keystore st)(k \<mapsto> v))"
  using assms
  by (auto simp: put_def Let_def and_then_def split: if_splits sum.splits option.splits)

lemma dispatch_keystore:
  assumes "dispatch H st m a = Inr (st', out)"
  shows "keystore st' = keystore st \<or>
         (\<exists>k v f. m = PUT k v f \<and> keystore st k = None \<and>
            (\<exists>s p. successor_id st = Some s \<and> \<not> contains (identification st) s (H k) \<and>
                   predecessor_id st = Some p \<and> contains p (identification st) (H k)) \<and>
            keystore st' = (keystore st)(k \<mapsto> v))"
proof (cases m)
  case (JOIN_REQ ra rid)
  then show ?thesis using assms node_join_keystore by (simp add: dispatch_def)
next
  case (NOTIFY pid paddr)
  then show ?thesis using assms by (auto simp: dispatch_def notify_keystore)
next
  case (PUT k v f)
  then show ?thesis using assms put_keystore by (simp add: dispatch_def)
next
  case (STABILIZE p)
  then show ?thesis using assms stabilize_keystore by (simp add: dispatch_def)
qed (use assms in \<open>auto simp: dispatch_def and_then_def split: sum.splits\<close>)


subsection \<open>The running node stays a running node\<close>

lemma active_init: "active (DHTNode_init H S address None)"
  by (simp add: active_def DHTNode_init_def FingerTable_init_def Let_def)

lemma node_join_active:
  assumes act: "active st" and run: "node_join st ra rid = Inr (st', out)"
  shows "active st'"
proof -
  have len: "length (as_list (finger_table st)) = m_bits (finger_table st)"
    using act by (simp add: active_def)
  show ?thesis
    using act run
    by (auto simp: active_def node_join_def fill_ok[OF len] and_then_def
        split: if_splits option.splits sum.splits)
qed

lemma stabilize_active:
  assumes act: "active st" and run: "stabilize st p a = Inr (st', out)"
  shows "active st'"
proof -
  have ne: "as_list (finger_table st) \<noteq> []"
    using act by (auto simp: active_def)
  show ?thesis
    using act run
    by (auto simp: active_def stabilize_def update1_ok[OF ne] and_then_def
        split: if_splits option.splits sum.splits)
qed

lemma notify_active: "active (notify st pid pa) = active st"
  by (simp add: notify_def active_def split: option.splits)

lemma put_active: "put H st k v a = Inr (st', out) \<Longrightarrow> active st' = active st"
  by (auto simp: put_def Let_def and_then_def active_def
      split: if_splits option.splits sum.splits)

lemma dispatch_active:
  assumes act: "active st" and run: "dispatch H st m a = Inr (st', out)"
  shows "active st'"
proof (cases m)
  case (JOIN_REQ ra rid)
  then show ?thesis using run node_join_active[OF act] by (simp add: dispatch_def)
next
  case (NOTIFY pid paddr)
  then show ?thesis using run act by (auto simp: dispatch_def notify_active)
next
  case (PUT k v f)
  then show ?thesis using run act put_active by (auto simp: dispatch_def)
next
  case (STABILIZE p)
  then show ?thesis using run stabilize_active[OF act] by (simp add: dispatch_def)
next
  case (SUCCESSOR_REP r sid sa)
  then obtain ft' where
    u: "update (finger_table st) (getIdxFromId (finger_table st) r) sid sa = Inr ft'"
    and st': "st' = st\<lparr>finger_table := ft'\<rparr>"
    using run by (auto simp: dispatch_def and_then_def split: sum.splits)
  show ?thesis using act update_shape[OF u] st' by (simp add: active_def)
qed (use run act in \<open>auto simp: dispatch_def and_then_def split: sum.splits\<close>)

lemma run_step_active:
  assumes act: "active st" and run: "run_step H st rcv = Inr (st', out)"
  shows "active st'"
proof (cases rcv)
  case None
  then show ?thesis using run act by (auto simp: run_step_def and_then_def split: sum.splits)
next
  case (Some pa)
  obtain payload b where pa: "pa = (payload, b)" by (cases pa)
  show ?thesis
  proof (cases payload)
    case (Message m)
    then show ?thesis using run Some pa dispatch_active[OF act] by (simp add: run_step_def)
  next
    case (MissingArgs meth)
    then show ?thesis using run Some pa act
      by (auto simp: run_step_def dispatch_def and_then_def split: if_splits sum.splits)
  qed (use run Some pa in \<open>auto simp: run_step_def\<close>)
qed

lemma join_step_activates:
  assumes len: "length (as_list (finger_table st)) = m_bits (finger_table st)"
    and pos: "0 < m_bits (finger_table st)"
    and run: "join_step st (Some (Message (JOIN_REP sid (Some sa)), a)) = Inr (st', out)"
  shows "active st'"
  using run pos
  by (auto simp: join_step_def fill_ok[OF len] and_then_def active_def split: sum.splits)


subsection \<open>Entry 1 and the successor\<close>

lemma entry1_replicate:
  assumes "0 < m" and "as_list (finger_table st) = replicate m (rid, ra)"
    and "successor_id st = Some rid" and "successor_addr st = ra"
  shows "entry1_is_successor st"
proof -
  obtain n where "m = Suc n" using assms(1) by (cases m) auto
  then show ?thesis using assms by (simp add: entry1_is_successor_def)
qed

lemma node_join_entry1:
  assumes len: "length (as_list (finger_table st)) = m_bits (finger_table st)"
    and pos: "0 < m_bits (finger_table st)"
    and e1: "entry1_is_successor st"
    and run: "node_join st ra rid = Inr (st', out)"
  shows "entry1_is_successor st'"
  using run e1
  by (auto simp: node_join_def fill_ok[OF len] and_then_def
      intro: entry1_replicate[OF pos]
      split: if_splits option.splits sum.splits)

lemma stabilize_entry1:
  assumes e1: "entry1_is_successor st"
    and run: "stabilize st p a = Inr (st', out)"
  shows "entry1_is_successor st'"
proof -
  have ne: "as_list (finger_table st) \<noteq> []"
    using e1 by (auto simp: entry1_is_successor_def)
  then obtain e rest where xs: "as_list (finger_table st) = e # rest"
    by (cases "as_list (finger_table st)") auto
  show ?thesis
    using run e1 xs
    by (auto simp: stabilize_def update1_ok[OF ne] and_then_def entry1_is_successor_def
        split: if_splits option.splits sum.splits)
qed

lemma notify_entry1: "entry1_is_successor (notify st pid pa) = entry1_is_successor st"
  by (simp add: notify_def entry1_is_successor_def split: option.splits list.splits)

lemma put_entry1:
  "put H st k v a = Inr (st', out) \<Longrightarrow> entry1_is_successor st' = entry1_is_successor st"
  by (auto simp: put_def Let_def and_then_def entry1_is_successor_def
      split: if_splits option.splits sum.splits list.splits)

lemma successor_rep_entry1:
  assumes len: "length (as_list (finger_table st)) = m_bits (finger_table st)"
    and e1: "entry1_is_successor st"
    and idx: "getIdxFromId (finger_table st) r \<noteq> Some 1"
    and run: "dispatch H st (SUCCESSOR_REP r sid sa) a = Inr (st', out)"
  shows "entry1_is_successor st'"
proof -
  from run obtain j where j: "getIdxFromId (finger_table st) r = Some j"
    by (cases "getIdxFromId (finger_table st) r") (auto simp: dispatch_def update_def)
  then obtain i where i: "i < m_bits (finger_table st)" "j = int i + 1"
    using getIdxFromId_range by blast
  have i0: "i \<noteq> 0" using idx j i by auto
  have "st' = st\<lparr>finger_table := (finger_table st)\<lparr>as_list := (as_list (finger_table st))[i := (sid, sa)]\<rparr>\<rparr>"
    using run j i len py_set_nat[of i "as_list (finger_table st)" "(sid, sa)"]
    by (auto simp: dispatch_def update_def)
  moreover obtain e rest where "as_list (finger_table st) = e # rest"
    using e1 by (cases "as_list (finger_table st)") (auto simp: entry1_is_successor_def)
  ultimately show ?thesis using e1 i0
    by (cases i) (auto simp: entry1_is_successor_def)
qed

lemma dispatch_entry1:
  assumes len: "length (as_list (finger_table st)) = m_bits (finger_table st)"
    and e1: "entry1_is_successor st"
    and idx: "\<forall>r sid sa. m = SUCCESSOR_REP r sid sa \<longrightarrow> getIdxFromId (finger_table st) r \<noteq> Some 1"
    and run: "dispatch H st m a = Inr (st', out)"
  shows "entry1_is_successor st'"
proof -
  have pos: "0 < m_bits (finger_table st)"
    using e1 len by (auto simp: entry1_is_successor_def split: list.splits)
  show ?thesis
  proof (cases m)
    case (JOIN_REQ ra rid)
    then show ?thesis using run node_join_entry1[OF len pos e1] by (simp add: dispatch_def)
  next
    case (NOTIFY pid paddr)
    then show ?thesis using run e1 by (auto simp: dispatch_def notify_entry1)
  next
    case (PUT k v f)
    then show ?thesis using run e1 put_entry1 by (auto simp: dispatch_def)
  next
    case (STABILIZE p)
    then show ?thesis using run stabilize_entry1[OF e1] by (simp add: dispatch_def)
  next
    case (SUCCESSOR_REP r sid sa)
    then show ?thesis using run idx successor_rep_entry1[OF len e1] by blast
  qed (use run e1 in \<open>auto simp: dispatch_def and_then_def split: sum.splits\<close>)
qed


lemma getIdxFromId_is_1:
  assumes "0 < m_bits ft"
  shows "(getIdxFromId ft r = Some 1) = contains (node_id ft) (target ft 0) r"
proof -
  have upt: "[0..<m_bits ft] = 0 # [1..<m_bits ft]"
    using assms by (simp add: upt_conv_Cons)
  have rest: "getIdx_loop ft r [1..<m_bits ft] \<noteq> Some 1"
  proof
    assume "getIdx_loop ft r [1..<m_bits ft] = Some 1"
    from getIdx_loop_Some[OF this] show False by auto
  qed
  show ?thesis using rest by (simp add: getIdxFromId_def upt Let_def)
qed

lemma successor_rep_index1:
  assumes ne: "as_list (finger_table st) \<noteq> []"
    and idx: "getIdxFromId (finger_table st) r = Some 1"
  shows "dispatch H st (SUCCESSOR_REP r sid sa) a =
           Inr (st\<lparr>finger_table := (finger_table st)
                  \<lparr>as_list := (as_list (finger_table st))[0 := (sid, sa)]\<rparr>\<rparr>, [])"
  using idx by (simp add: dispatch_def update1_ok[OF ne])

lemma entry1_after_index1:
  assumes "entry1_is_successor st"
  shows "entry1_is_successor
           (st\<lparr>finger_table := (finger_table st)
                  \<lparr>as_list := (as_list (finger_table st))[0 := (sid, sa)]\<rparr>\<rparr>) =
         (successor_id st = Some sid \<and> successor_addr st = sa)"
  using assms by (auto simp: entry1_is_successor_def split: list.splits)

lemma run_step_entry1_iff:
  assumes len: "length (as_list (finger_table st)) = m_bits (finger_table st)"
    and e1: "entry1_is_successor st"
    and run: "run_step H st rcv = Inr (st', out)"
  shows "entry1_is_successor st' =
           (\<forall>r sid sa a. rcv = Some (Message (SUCCESSOR_REP r sid sa), a) \<and>
               getIdxFromId (finger_table st) r = Some 1 \<longrightarrow>
               successor_id st = Some sid \<and> successor_addr st = sa)"
proof -
  have ne: "as_list (finger_table st) \<noteq> []"
    using e1 by (auto simp: entry1_is_successor_def)
  show ?thesis
  proof (cases "\<exists>r sid sa a. rcv = Some (Message (SUCCESSOR_REP r sid sa), a) \<and>
               getIdxFromId (finger_table st) r = Some 1")
    case True
    then obtain r sid sa a where rcv: "rcv = Some (Message (SUCCESSOR_REP r sid sa), a)"
      and idx: "getIdxFromId (finger_table st) r = Some 1" by blast
    have "st' = st\<lparr>finger_table := (finger_table st)
                  \<lparr>as_list := (as_list (finger_table st))[0 := (sid, sa)]\<rparr>\<rparr>"
      using run rcv successor_rep_index1[OF ne idx, of H sid sa a] by (simp add: run_step_def)
    then have "entry1_is_successor st' = (successor_id st = Some sid \<and> successor_addr st = sa)"
      using entry1_after_index1[OF e1] by simp
    then show ?thesis using rcv idx by simp
  next
    case False
    have "entry1_is_successor st'"
    proof (cases rcv)
      case None
      then show ?thesis using run e1 by (auto simp: run_step_def and_then_def split: sum.splits)
    next
      case (Some pa)
      obtain payload b where pa: "pa = (payload, b)" by (cases pa)
      show ?thesis
      proof (cases payload)
        case (Message m)
        then have d: "dispatch H st m b = Inr (st', out)"
          using run Some pa by (simp add: run_step_def)
        have "\<forall>r sid sa. m = SUCCESSOR_REP r sid sa \<longrightarrow>
                getIdxFromId (finger_table st) r \<noteq> Some 1"
          using False Some pa Message by blast
        from dispatch_entry1[OF len e1 this d] show ?thesis .
      next
        case (MissingArgs meth)
        then show ?thesis using run Some pa e1
          by (auto simp: run_step_def dispatch_def and_then_def split: if_splits sum.splits)
      qed (use run Some pa in \<open>auto simp: run_step_def\<close>)
    qed
    then show ?thesis using False by blast
  qed
qed

subsection \<open>Envelopes outside the dispatch of \<open>run\<close>\<close>

lemma other_method_not_dispatched: "Rep_other_method n \<notin> dispatched"
  using Rep_other_method[of n] by (simp add: protocol_methods_def)

lemma method_of_not_dispatched:
  "(method_of m \<notin> dispatched) =
     ((\<exists>i a. m = JOIN_REP i a) \<or> (\<exists>x. m = ACK x) \<or> m = NACK \<or> (\<exists>n. m = OTHER n))"
  using other_method_not_dispatched by (cases m) (auto simp: dispatched_def)





subsection \<open>The stabilize protocol\<close>

lemma get_successor_ok:
  assumes "successor_id st = Some s" and "successor_addr st = Some sa"
  shows "get_successor st t b =
           Inr [if contains (identification st) s t then (b, SUCCESSOR_REP t s (Some sa))
                else (sa, SUCCESSOR t b)]"
  using assms by (simp add: get_successor_def)

lemma stabilize_loop_ok:
  assumes len: "length (as_list (finger_table st)) = m_bits (finger_table st)"
    and s: "successor_id st = Some s" and sa: "successor_addr st = Some sa"
    and rng: "\<forall>i \<in> set is. i < m_bits (finger_table st)"
  shows "stabilize_loop st is =
           Inr (map (\<lambda>i. if contains (identification st) s
                              ((node_id (finger_table st) + 2 ^ i) mod 2 ^ m_bits (finger_table st))
                          then (addr st,
                                SUCCESSOR_REP
                                  ((node_id (finger_table st) + 2 ^ i) mod 2 ^ m_bits (finger_table st))
                                  s (Some sa))
                          else (sa,
                                SUCCESSOR
                                  ((node_id (finger_table st) + 2 ^ i) mod 2 ^ m_bits (finger_table st))
                                  (addr st))) is)"
  using rng
proof (induction "is")
  case Nil
  then show ?case by simp
next
  case (Cons i rest)
  then have i: "i < m_bits (finger_table st)" by simp
  let ?r = "map (\<lambda>i. (int i + 1,
                (node_id (finger_table st) + 2 ^ i) mod 2 ^ m_bits (finger_table st),
                snd (as_list (finger_table st) ! i))) [0..<m_bits (finger_table st)]"
  have "py_get ?r (int i) = Inr (?r ! i)"
    using i by (intro py_get_nat) simp
  also have "?r ! i = (int i + 1,
                (node_id (finger_table st) + 2 ^ i) mod 2 ^ m_bits (finger_table st),
                snd (as_list (finger_table st) ! i))"
    using i by simp
  finally have g: "py_get ?r (int i) = Inr (int i + 1,
                (node_id (finger_table st) + 2 ^ i) mod 2 ^ m_bits (finger_table st),
                snd (as_list (finger_table st) ! i))" .
  show ?case
    using Cons g by (simp add: refresh_ok[OF len] get_successor_ok[OF s sa])
qed

lemma stabilize_adopts:
  assumes len: "length (as_list (finger_table st)) = m_bits (finger_table st)"
    and pos: "0 < m_bits (finger_table st)"
    and s: "successor_id st = Some s"
    and inside: "contains (identification st) s f"
  shows "stabilize st (Some f) a =
           Inr (st\<lparr>successor_id := Some f, successor_addr := Some a,
                   finger_table := (finger_table st)
                     \<lparr>as_list := (as_list (finger_table st))[0 := (f, Some a)]\<rparr>\<rparr>,
                (a, NOTIFY (identification st) (addr st)) #
                map (\<lambda>i. if contains (identification st) f (target (finger_table st) i)
                          then (addr st, SUCCESSOR_REP (target (finger_table st) i) f (Some a))
                          else (a, SUCCESSOR (target (finger_table st) i) (addr st)))
                    [0..<m_bits (finger_table st)])"
proof -
  let ?ft = "(finger_table st)\<lparr>as_list := (as_list (finger_table st))[0 := (f, Some a)]\<rparr>"
  let ?st1 = "st\<lparr>successor_id := Some f, successor_addr := Some a, finger_table := ?ft\<rparr>"
  have ne: "as_list (finger_table st) \<noteq> []" using len pos by auto
  have len1: "length (as_list (finger_table ?st1)) = m_bits (finger_table ?st1)"
    using len by simp
  have len2: "length (as_list ?ft) = m_bits ?ft"
    using len by simp
  have loop: "stabilize_loop ?st1 [0..<m_bits (finger_table st)] =
      Inr (map (\<lambda>i. if contains (identification st) f (target (finger_table st) i)
                          then (addr st, SUCCESSOR_REP (target (finger_table st) i) f (Some a))
                          else (a, SUCCESSOR (target (finger_table st) i) (addr st)))
                    [0..<m_bits (finger_table st)])"
    using stabilize_loop_ok[OF len1, of f a "[0..<m_bits (finger_table st)]"] by simp
  show ?thesis
    using s inside loop
    by (simp add: stabilize_def update1_ok[OF ne] refresh_ok[OF len2])
qed

lemma stabilize_keeps:
  assumes len: "length (as_list (finger_table st)) = m_bits (finger_table st)"
    and s: "successor_id st = Some s" and sa: "successor_addr st = Some sa"
    and no: "p = None \<or> (\<exists>f. p = Some f \<and> \<not> contains (identification st) s f)"
  shows "stabilize st p a =
           Inr (st,
                (sa, NOTIFY (identification st) (addr st)) #
                map (\<lambda>i. if contains (identification st) s (target (finger_table st) i)
                          then (addr st, SUCCESSOR_REP (target (finger_table st) i) s (Some sa))
                          else (sa, SUCCESSOR (target (finger_table st) i) (addr st)))
                    [0..<m_bits (finger_table st)])"
proof -
  have loop: "stabilize_loop st [0..<m_bits (finger_table st)] =
      Inr (map (\<lambda>i. if contains (identification st) s (target (finger_table st) i)
                          then (addr st, SUCCESSOR_REP (target (finger_table st) i) s (Some sa))
                          else (sa, SUCCESSOR (target (finger_table st) i) (addr st)))
                    [0..<m_bits (finger_table st)])"
    using stabilize_loop_ok[OF len s sa, of "[0..<m_bits (finger_table st)]"] by simp
  show ?thesis
    using s sa no loop
    by (auto simp: stabilize_def refresh_ok[OF len])
qed


subsection \<open>Forwarding comes before ownership in \<open>put\<close>\<close>

lemma put_forward_precedes_ownership:
  assumes "successor_id st = Some s" and "successor_addr st = Some sa"
    and "contains (identification st) s (H k)"
  shows "put H st k v a = Inr (st, [(sa, PUT k v (Some a))])"
  using assms by (simp add: put_def)

lemma both_intervals_for_any_hash:
  "contains (H k - 2) (H k) (H k) \<and> contains (H k - 1) (H k - 2) (H k)"
  by (simp add: contains_def)


subsection \<open>The example nodes\<close>

lemma upt10: "[0..<10] = [0, 1, 2, 3, 4, 5, 6, 7, 8, 9]"
  by (simp add: upt_rec)

lemma replicate10: "replicate 10 x = [x, x, x, x, x, x, x, x, x, x]"
  by (simp add: numeral_eq_Suc)

lemma solo_node_fields:
  "identification solo_node = 100" "addr solo_node = (''10.0.0.1'', 5000)"
  "successor_id solo_node = Some 100" "successor_addr solo_node = Some (''10.0.0.1'', 5000)"
  "predecessor_id solo_node = None" "\<not> is_done solo_node"
  "m_bits (finger_table solo_node) = 10"
  "as_list (finger_table solo_node) = replicate 10 (100, Some (''10.0.0.1'', 5000))"
  "node_id (finger_table solo_node) = 100"
  by (simp_all add: solo_node_def DHTNode_init_def FingerTable_init_def Let_def)

lemma ring_node_fields:
  "identification ring_node = 10" "addr ring_node = (''10.0.0.1'', 5001)"
  "successor_id ring_node = Some 30" "successor_addr ring_node = Some (''10.0.0.1'', 5003)"
  "predecessor_id ring_node = Some 20" "\<not> is_done ring_node"
  "keystore ring_node = Map.empty"
  "m_bits (finger_table ring_node) = 10"
  "as_list (finger_table ring_node) = replicate 10 (30, Some (''10.0.0.1'', 5003))"
  "node_id (finger_table ring_node) = 10"
  by (simp_all add: ring_node_def)

lemma joining_node_fields:
  "identification joining_node = 40" "addr joining_node = (''10.0.0.1'', 5004)"
  "dht_address joining_node = Some (''10.0.0.1'', 5000)"
  "m_bits (finger_table joining_node) = 10"
  "as_list (finger_table joining_node) = replicate 10 (40, Some (''10.0.0.1'', 5004))"
  by (simp_all add: joining_node_def DHTNode_init_def FingerTable_init_def Let_def)

lemma active_solo_node: "active solo_node"
  by (simp add: solo_node_def active_init)

lemma active_ring_node: "active ring_node"
  by (simp add: ring_node_def active_def)

text \<open>
  Nodes 10 and 30 are states the class reaches by itself: each is constructed with a
  bootstrap address, admitted by the JOIN_REP of its join loop, and then notified by
  node 20 while it has no predecessor.
\<close>

lemma ring_node_reachable:
  "join_step (DHTNode_init (hash_const 10) fst (''10.0.0.1'', 5001) (Some (''10.0.0.1'', 5000)))
     (Some (Message (JOIN_REP 30 (Some (''10.0.0.1'', 5003))), (''10.0.0.1'', 5000))) =
     Inr (ring_node\<lparr>predecessor_id := None, predecessor_addr := None\<rparr>,
          [((''10.0.0.1'', 5000), JOIN_REQ (''10.0.0.1'', 5001) 10)]) \<and>
   run_step H (ring_node\<lparr>predecessor_id := None, predecessor_addr := None\<rparr>)
     (Some (Message (NOTIFY 20 (''10.0.0.1'', 5002)), (''10.0.0.1'', 5002))) =
     Inr (ring_node, [])"
proof -
  let ?n = "DHTNode_init (hash_const 10) fst (''10.0.0.1'', 5001) (Some (''10.0.0.1'', 5000))"
  have len: "length (as_list (finger_table ?n)) = m_bits (finger_table ?n)"
    by (simp add: DHTNode_init_def FingerTable_init_def Let_def)
  show ?thesis
    by (simp add: join_step_def fill_ok[OF len] run_step_def dispatch_def notify_def)
       (simp add: DHTNode_init_def FingerTable_init_def Let_def ring_node_def)
qed

lemma peer_node_reachable:
  "join_step (DHTNode_init (hash_const 30) fst (''10.0.0.1'', 5003) (Some (''10.0.0.1'', 5000)))
     (Some (Message (JOIN_REP 10 (Some (''10.0.0.1'', 5001))), (''10.0.0.1'', 5000))) =
     Inr (peer_node\<lparr>predecessor_id := None, predecessor_addr := None\<rparr>,
          [((''10.0.0.1'', 5000), JOIN_REQ (''10.0.0.1'', 5003) 30)]) \<and>
   run_step H (peer_node\<lparr>predecessor_id := None, predecessor_addr := None\<rparr>)
     (Some (Message (NOTIFY 20 (''10.0.0.1'', 5002)), (''10.0.0.1'', 5002))) =
     Inr (peer_node, [])"
proof -
  let ?n = "DHTNode_init (hash_const 30) fst (''10.0.0.1'', 5003) (Some (''10.0.0.1'', 5000))"
  have len: "length (as_list (finger_table ?n)) = m_bits (finger_table ?n)"
    by (simp add: DHTNode_init_def FingerTable_init_def Let_def)
  show ?thesis
    by (simp add: join_step_def fill_ok[OF len] run_step_def dispatch_def notify_def)
       (simp add: DHTNode_init_def FingerTable_init_def Let_def peer_node_def)
qed


section \<open>The claims\<close>

subsection \<open>C1: a SUCCESSOR_REP that no finger-table index covers\<close>

text \<open>
  C1, as amended.  When no index \<open>i\<close> in \<open>1..m\<close> satisfies
  \<open>contains(self.id, (self.id + 2^(i-1)) mod 2^m, req_id)\<close>, \<open>getIdxFromId\<close> returns
  \<open>None\<close> and processing the SUCCESSOR_REP is not a no-op that completes: \<open>update\<close>
  computes \<open>None - 1\<close> and raises TypeError before any entry of the finger table is
  written, and the exception ends the processing loop.
\<close>

theorem successor_rep_without_index_raises:
  assumes "\<forall>i \<in> {1..m_bits (finger_table st)}.
             \<not> contains (node_id (finger_table st))
                 ((node_id (finger_table st) + 2 ^ (i - 1)) mod 2 ^ m_bits (finger_table st)) r"
  shows "getIdxFromId (finger_table st) r = None \<and>
         run_step H st (Some (Message (SUCCESSOR_REP r sid sa), a)) = Inl TypeError \<and>
         (\<not> is_done st \<longrightarrow>
            run_loop H st (Some (Message (SUCCESSOR_REP r sid sa), a) # rest) = Inl TypeError)"
proof -
  have "\<forall>i \<in> set [0..<m_bits (finger_table st)].
          \<not> contains (node_id (finger_table st))
              ((node_id (finger_table st) + 2 ^ i) mod 2 ^ m_bits (finger_table st)) r"
  proof
    fix i assume "i \<in> set [0..<m_bits (finger_table st)]"
    then have "Suc i \<in> {1..m_bits (finger_table st)}" by simp
    then show "\<not> contains (node_id (finger_table st))
              ((node_id (finger_table st) + 2 ^ i) mod 2 ^ m_bits (finger_table st)) r"
      using assms by fastforce
  qed
  then have none: "getIdxFromId (finger_table st) r = None"
    by (simp add: getIdxFromId_def getIdx_loop_None)
  then have step: "run_step H st (Some (Message (SUCCESSOR_REP r sid sa), a)) = Inl TypeError"
    by (simp add: run_step_def dispatch_def update_def)
  show ?thesis using none step by simp
qed

text \<open>
  Witness for C1: the node that started a ring alone (identifier 100, 10 bits) receives
  a SUCCESSOR_REP for identifier 700, which none of the targets 101, 102, 104, ..., 612
  covers.
\<close>

theorem successor_rep_without_index_raises_witness:
  "m_bits (finger_table solo_node) = 10 \<and>
   \<not> contains (node_id (finger_table solo_node)) (target (finger_table solo_node) 9) 700 \<and>
   getIdxFromId (finger_table solo_node) 700 = None \<and>
   run_step (hash_const 100) solo_node
     (Some (Message (SUCCESSOR_REP 700 7 (Some (''10.0.0.1'', 5007))), (''10.0.0.1'', 5007)))
     = Inl TypeError"
proof -
  have h: "\<forall>i \<in> {1..m_bits (finger_table solo_node)}.
      \<not> contains (node_id (finger_table solo_node))
          ((node_id (finger_table solo_node) + 2 ^ (i - 1))
             mod 2 ^ m_bits (finger_table solo_node)) 700"
  proof
    fix i assume "i \<in> {1..m_bits (finger_table solo_node)}"
    then have "i \<le> 10"
      by (simp add: solo_node_def DHTNode_init_def FingerTable_init_def Let_def)
    then have i: "i - 1 \<le> 9" by arith
    have "(2::int) ^ (i - 1) \<le> 2 ^ 9" using i by (intro power_increasing) auto
    moreover have "(0::int) < 2 ^ (i - 1)" by simp
    ultimately have "(100 + 2 ^ (i - 1)) mod 1024 = 100 + (2::int) ^ (i - 1)"
      and "100 + (2::int) ^ (i - 1) \<le> 612" by simp_all
    then show "\<not> contains (node_id (finger_table solo_node))
          ((node_id (finger_table solo_node) + 2 ^ (i - 1))
             mod 2 ^ m_bits (finger_table solo_node)) 700"
      by (simp add: solo_node_def DHTNode_init_def FingerTable_init_def Let_def contains_def)
  qed
  from successor_rep_without_index_raises[OF h, of "hash_const 100" 7 "Some (''10.0.0.1'', 5007)"
      "(''10.0.0.1'', 5007)" "[]"]
  show ?thesis by (simp add: solo_node_fields contains_def)
qed

text \<open>
  Counterexample to C1 as stated: on that input the handler does not complete; it raises
  TypeError.
\<close>

theorem successor_rep_without_index_counterexample:
  "getIdxFromId (finger_table solo_node) 700 = None \<and>
   run_step (hash_const 100) solo_node
     (Some (Message (SUCCESSOR_REP 700 7 (Some (''10.0.0.1'', 5007))), (''10.0.0.1'', 5007)))
     = Inl TypeError"
  by (simp add: solo_node_def DHTNode_init_def FingerTable_init_def Let_def run_step_def
      dispatch_def update_def getIdxFromId_def upt10 contains_def)

subsection \<open>C2: entry 1 of the finger table and the successor\<close>

text \<open>
  C2, as amended.  On a node whose finger table has its \<open>m_bits > 0\<close> entries and whose
  entry 1 is the current successor, entry 1 is the current successor after every iteration
  of the processing loop that completes (JOIN_REQ, NOTIFY, STABILIZE, SUCCESSOR, PUT, GET,
  PREDECESSOR, a timeout, a dropped envelope, a SUCCESSOR_REP covered by another index),
  with one exception.  A SUCCESSOR_REP whose \<open>req_id\<close> is covered by index 1, that is
  \<open>contains(self.id, (self.id + 1) mod 2^m, req_id)\<close>, writes the reply's successor into
  entry 1 and changes nothing else, the node's successor attributes included: after it,
  entry 1 is the current successor exactly when the reply names the current successor.
  The JOIN_REP that ends the join loop makes entry 1 the successor.
\<close>

theorem entry1_preserved_except_successor_rep_at_index1:
  assumes len: "length (as_list (finger_table st)) = m_bits (finger_table st)"
    and pos: "0 < m_bits (finger_table st)"
  shows "(entry1_is_successor st \<and> run_step H st rcv = Inr (st', out) \<longrightarrow>
            entry1_is_successor st' =
              (\<forall>r sid sa a. rcv = Some (Message (SUCCESSOR_REP r sid sa), a) \<and>
                  getIdxFromId (finger_table st) r = Some 1 \<longrightarrow>
                  successor_id st = Some sid \<and> successor_addr st = sa)) \<and>
         (getIdxFromId (finger_table st) q = Some 1) =
            contains (node_id (finger_table st)) (target (finger_table st) 0) q \<and>
         (getIdxFromId (finger_table st) q = Some 1 \<longrightarrow>
            run_step H st (Some (Message (SUCCESSOR_REP q qid qa), a)) =
              Inr (st\<lparr>finger_table := (finger_table st)
                     \<lparr>as_list := (as_list (finger_table st))[0 := (qid, qa)]\<rparr>\<rparr>, [])) \<and>
         (join_step st (Some (Message (JOIN_REP jid ja), a)) = Inr (st', out)
            \<longrightarrow> entry1_is_successor st')"
proof -
  have ne: "as_list (finger_table st) \<noteq> []" using len pos by auto
  have a: "entry1_is_successor st \<and> run_step H st rcv = Inr (st', out) \<longrightarrow>
            entry1_is_successor st' =
              (\<forall>r sid sa a. rcv = Some (Message (SUCCESSOR_REP r sid sa), a) \<and>
                  getIdxFromId (finger_table st) r = Some 1 \<longrightarrow>
                  successor_id st = Some sid \<and> successor_addr st = sa)"
    using run_step_entry1_iff[OF len] by blast
  have b: "(getIdxFromId (finger_table st) q = Some 1) =
            contains (node_id (finger_table st)) (target (finger_table st) 0) q"
    by (rule getIdxFromId_is_1[OF pos])
  have c: "getIdxFromId (finger_table st) q = Some 1 \<longrightarrow>
            run_step H st (Some (Message (SUCCESSOR_REP q qid qa), a)) =
              Inr (st\<lparr>finger_table := (finger_table st)
                     \<lparr>as_list := (as_list (finger_table st))[0 := (qid, qa)]\<rparr>\<rparr>, [])"
    using successor_rep_index1[OF ne] by (simp add: run_step_def)
  have d: "join_step st (Some (Message (JOIN_REP jid ja), a)) = Inr (st', out)
            \<longrightarrow> entry1_is_successor st'"
    by (auto simp: join_step_def fill_ok[OF len] and_then_def
        intro: entry1_replicate[OF pos] split: sum.splits)
  show ?thesis using a b c d by (intro conjI)
qed

text \<open>
  Witness for C2, on node 10 with successor 30: a SUCCESSOR_REP for identifier 11 (index
  1) that names node 30 keeps entry 1 equal to the successor, one that names node 7 does
  not; a SUCCESSOR_REP for identifier 12 (index 2) that names node 7 changes entry 2 and
  keeps entry 1.  A JOIN_REQ from node 40 processed by the node that is alone in its ring,
  and a JOIN_REP processed by a joining node, leave entry 1 equal to the new successor.
\<close>

theorem entry1_preserved_except_successor_rep_at_index1_witness:
  "entry1_is_successor ring_node \<and>
   getIdxFromId (finger_table ring_node) 11 = Some 1 \<and>
   run_step (hash_const 0) ring_node
     (Some (Message (SUCCESSOR_REP 11 30 (Some (''10.0.0.1'', 5003))), (''10.0.0.1'', 5003))) =
     Inr (ring_node\<lparr>finger_table := (finger_table ring_node)
            \<lparr>as_list := (as_list (finger_table ring_node))[0 := (30, Some (''10.0.0.1'', 5003))]\<rparr>\<rparr>,
          []) \<and>
   entry1_is_successor
     (ring_node\<lparr>finger_table := (finger_table ring_node)
            \<lparr>as_list := (as_list (finger_table ring_node))[0 := (30, Some (''10.0.0.1'', 5003))]\<rparr>\<rparr>) \<and>
   run_step (hash_const 0) ring_node
     (Some (Message (SUCCESSOR_REP 11 7 (Some (''10.0.0.1'', 5007))), (''10.0.0.1'', 5003))) =
     Inr (ring_node\<lparr>finger_table := (finger_table ring_node)
            \<lparr>as_list := (as_list (finger_table ring_node))[0 := (7, Some (''10.0.0.1'', 5007))]\<rparr>\<rparr>,
          []) \<and>
   \<not> entry1_is_successor
     (ring_node\<lparr>finger_table := (finger_table ring_node)
            \<lparr>as_list := (as_list (finger_table ring_node))[0 := (7, Some (''10.0.0.1'', 5007))]\<rparr>\<rparr>) \<and>
   getIdxFromId (finger_table ring_node) 12 = Some 2 \<and>
   (case run_step (hash_const 0) ring_node
           (Some (Message (SUCCESSOR_REP 12 7 (Some (''10.0.0.1'', 5007))), (''10.0.0.1'', 5003))) of
      Inl e \<Rightarrow> False
    | Inr (st', out) \<Rightarrow>
        as_list (finger_table st') ! 1 = (7, Some (''10.0.0.1'', 5007)) \<and>
        entry1_is_successor st') \<and>
   (case run_step (hash_const 100) solo_node
           (Some (Message (JOIN_REQ (''10.0.0.1'', 5004) 40), (''10.0.0.1'', 5004))) of
      Inl e \<Rightarrow> False
    | Inr (st', out) \<Rightarrow> successor_id st' = Some 40 \<and> entry1_is_successor st') \<and>
   (case join_step joining_node
           (Some (Message (JOIN_REP 100 (Some (''10.0.0.1'', 5000))), (''10.0.0.1'', 5000))) of
      Inl e \<Rightarrow> False
    | Inr (st', out) \<Rightarrow> successor_id st' = Some 100 \<and> entry1_is_successor st')"
proof -
  let ?s = "(''10.0.0.1'', 5003::nat)"
  let ?x = "(''10.0.0.1'', 5007::nat)"
  let ?keep = "ring_node\<lparr>finger_table := (finger_table ring_node)
            \<lparr>as_list := (as_list (finger_table ring_node))[0 := (30, Some ?s)]\<rparr>\<rparr>"
  let ?break = "ring_node\<lparr>finger_table := (finger_table ring_node)
            \<lparr>as_list := (as_list (finger_table ring_node))[0 := (7, Some ?x)]\<rparr>\<rparr>"
  have len: "length (as_list (finger_table ring_node)) = m_bits (finger_table ring_node)"
    and pos: "0 < m_bits (finger_table ring_node)"
    by (simp_all add: ring_node_fields)
  have e1: "entry1_is_successor ring_node"
    by (simp add: entry1_is_successor_def ring_node_fields replicate10)
  note ring = entry1_preserved_except_successor_rep_at_index1[OF len pos]
  \<comment> \<open>index 1, the reply names the current successor\<close>
  have cover: "contains (node_id (finger_table ring_node)) (target (finger_table ring_node) 0) 11"
    by (simp add: ring_node_fields contains_def)
  have idx1: "getIdxFromId (finger_table ring_node) 11 = Some 1"
    using ring[where q = 11, THEN conjunct2, THEN conjunct1] cover by simp
  have r1: "run_step (hash_const 0) ring_node (Some (Message (SUCCESSOR_REP 11 30 (Some ?s)), ?s))
      = Inr (?keep, [])"
    using ring[where q = 11 and H = "hash_const 0" and qid = 30 and qa = "Some ?s" and a = ?s,
        THEN conjunct2, THEN conjunct2, THEN conjunct1] idx1 by simp
  have k1: "entry1_is_successor ?keep"
    using ring[where H = "hash_const 0"
        and rcv = "Some (Message (SUCCESSOR_REP 11 30 (Some ?s)), ?s)"
        and st' = ?keep and out = "[]", THEN conjunct1] e1 r1
    by (simp add: ring_node_fields)
  \<comment> \<open>index 1, the reply names another node\<close>
  have r2: "run_step (hash_const 0) ring_node (Some (Message (SUCCESSOR_REP 11 7 (Some ?x)), ?s))
      = Inr (?break, [])"
    using ring[where q = 11 and H = "hash_const 0" and qid = 7 and qa = "Some ?x" and a = ?s,
        THEN conjunct2, THEN conjunct2, THEN conjunct1] idx1 by simp
  have k2: "\<not> entry1_is_successor ?break"
    using ring[where H = "hash_const 0"
        and rcv = "Some (Message (SUCCESSOR_REP 11 7 (Some ?x)), ?s)"
        and st' = ?break and out = "[]", THEN conjunct1] e1 r2 idx1
    by (simp add: ring_node_fields)
  \<comment> \<open>index 2\<close>
  have idx2: "getIdxFromId (finger_table ring_node) 12 = Some 2"
    by (simp add: getIdxFromId_def ring_node_fields upt10 contains_def)
  obtain st3 out3 where
    r3: "run_step (hash_const 0) ring_node (Some (Message (SUCCESSOR_REP 12 7 (Some ?x)), ?s))
      = Inr (st3, out3)"
    and ent: "as_list (finger_table st3) ! 1 = (7, Some ?x)"
    using idx2
    by (simp add: run_step_def dispatch_def update_def py_set_def subscript_def
        ring_node_fields replicate10)
  have k3: "entry1_is_successor st3"
    using ring[where H = "hash_const 0"
        and rcv = "Some (Message (SUCCESSOR_REP 12 7 (Some ?x)), ?s)"
        and st' = st3 and out = out3, THEN conjunct1] e1 r3 idx2
    by simp
  \<comment> \<open>JOIN_REQ and JOIN_REP\<close>
  let ?rcv = "Some (Message (JOIN_REQ (''10.0.0.1'', 5004) 40), (''10.0.0.1'', 5004::nat))"
  let ?rep = "Some (Message (JOIN_REP 100 (Some (''10.0.0.1'', 5000))), (''10.0.0.1'', 5000::nat))"
  have lens: "length (as_list (finger_table solo_node)) = m_bits (finger_table solo_node)"
    and poss: "0 < m_bits (finger_table solo_node)"
    by (simp_all add: solo_node_fields)
  have e1s: "entry1_is_successor solo_node"
    by (simp add: entry1_is_successor_def solo_node_fields replicate10)
  obtain st4 out4 where r4: "run_step (hash_const 100) solo_node ?rcv = Inr (st4, out4)"
    and s4: "successor_id st4 = Some 40"
    using lens by (simp add: run_step_def dispatch_def node_join_def fill_ok solo_node_fields)
  have k4: "entry1_is_successor st4"
    using entry1_preserved_except_successor_rep_at_index1[OF lens poss,
        where H = "hash_const 100" and rcv = ?rcv and st' = st4 and out = out4,
        THEN conjunct1] e1s r4
    by simp
  have lenj: "length (as_list (finger_table joining_node)) = m_bits (finger_table joining_node)"
    and posj: "0 < m_bits (finger_table joining_node)"
    by (simp_all add: joining_node_fields)
  obtain st5 out5 where r5: "join_step joining_node ?rep = Inr (st5, out5)"
    and s5: "successor_id st5 = Some 100"
    using lenj by (simp add: join_step_def fill_ok joining_node_fields)
  have k5: "entry1_is_successor st5"
    using entry1_preserved_except_successor_rep_at_index1[OF lenj posj,
        where jid = 100 and ja = "Some (''10.0.0.1'', 5000)" and a = "(''10.0.0.1'', 5000)"
          and st' = st5 and out = out5, THEN conjunct2, THEN conjunct2, THEN conjunct2] r5
    by blast
  show ?thesis
    using e1 idx1 r1 k1 r2 k2 idx2 r3 ent k3 r4 s4 k4 r5 s5 k5 by simp
qed

text \<open>
  Counterexample to C2 as stated: node 100, alone in its ring, has itself in entry 1 and
  as successor.  A SUCCESSOR_REP for identifier 101 naming node 7 is covered by index 1:
  entry 1 becomes node 7 and the successor is still node 100.
\<close>

theorem entry1_overwritten_by_successor_rep_counterexample:
  "entry1_is_successor solo_node \<and>
   run_step (hash_const 100) solo_node
     (Some (Message (SUCCESSOR_REP 101 7 (Some (''10.0.0.1'', 5007))), (''10.0.0.1'', 5007))) =
     Inr (solo_node\<lparr>finger_table := (finger_table solo_node)
            \<lparr>as_list := (as_list (finger_table solo_node))[0 := (7, Some (''10.0.0.1'', 5007))]\<rparr>\<rparr>,
          []) \<and>
   successor_id (solo_node\<lparr>finger_table := (finger_table solo_node)
            \<lparr>as_list := (as_list (finger_table solo_node))[0 := (7, Some (''10.0.0.1'', 5007))]\<rparr>\<rparr>)
     = Some 100 \<and>
   \<not> entry1_is_successor
       (solo_node\<lparr>finger_table := (finger_table solo_node)
            \<lparr>as_list := (as_list (finger_table solo_node))[0 := (7, Some (''10.0.0.1'', 5007))]\<rparr>\<rparr>)"
proof -
  have idx: "getIdxFromId (finger_table solo_node) 101 = Some 1"
    by (simp add: getIdxFromId_def solo_node_fields upt10 contains_def)
  have ne: "as_list (finger_table solo_node) \<noteq> []"
    by (simp add: solo_node_fields replicate10)
  show ?thesis
    using idx update1_ok[OF ne]
    by (simp add: run_step_def dispatch_def entry1_is_successor_def solo_node_fields replicate10)
qed

subsection \<open>C3: STABILIZE\<close>

text \<open>
  C3, as amended.  On a running node with successor \<open>(s, sa)\<close>, a STABILIZE that
  carries a reported predecessor identifier \<open>f\<close> with \<open>contains(self.id, s, f)\<close> (which
  holds in particular when \<open>f\<close> lies strictly between the two identifiers) makes \<open>f\<close>
  the successor identifier and makes the address the STABILIZE came from the successor
  address (the message carries no address of the reported predecessor), and writes that
  pair into entry 1.  In every case NOTIFY with this node's identifier and address is then
  sent to the possibly updated successor address, followed, for each of the \<open>m\<close> refresh
  targets in order, by the datagram of the successor lookup \<open>get_successor\<close>: a
  SUCCESSOR request to the successor, or a SUCCESSOR_REP to this node's own address when
  the target lies between this node and its successor.
\<close>

theorem stabilize_adopts_reported_id_with_sender_address:
  assumes "active st" and "successor_id st = Some s" and "successor_addr st = Some sa"
  shows "(\<forall>f. p = Some f \<and> contains (identification st) s f \<longrightarrow>
            run_step H st (Some (Message (STABILIZE p), a)) =
              Inr (st\<lparr>successor_id := Some f, successor_addr := Some a,
                      finger_table := (finger_table st)
                        \<lparr>as_list := (as_list (finger_table st))[0 := (f, Some a)]\<rparr>\<rparr>,
                   (a, NOTIFY (identification st) (addr st)) #
                   map (\<lambda>i. if contains (identification st) f (target (finger_table st) i)
                             then (addr st, SUCCESSOR_REP (target (finger_table st) i) f (Some a))
                             else (a, SUCCESSOR (target (finger_table st) i) (addr st)))
                       [0..<m_bits (finger_table st)])) \<and>
         (p = None \<or> (\<exists>f. p = Some f \<and> \<not> contains (identification st) s f) \<longrightarrow>
            run_step H st (Some (Message (STABILIZE p), a)) =
              Inr (st,
                   (sa, NOTIFY (identification st) (addr st)) #
                   map (\<lambda>i. if contains (identification st) s (target (finger_table st) i)
                             then (addr st, SUCCESSOR_REP (target (finger_table st) i) s (Some sa))
                             else (sa, SUCCESSOR (target (finger_table st) i) (addr st)))
                       [0..<m_bits (finger_table st)]))"
proof -
  have len: "length (as_list (finger_table st)) = m_bits (finger_table st)"
    and pos: "0 < m_bits (finger_table st)"
    using assms(1) by (simp_all add: active_def)
  have step: "run_step H st (Some (Message (STABILIZE p), a)) = stabilize st p a"
    by (simp add: run_step_def dispatch_def)
  show ?thesis
  proof (intro conjI allI impI)
    fix f
    assume "p = Some f \<and> contains (identification st) s f"
    then show "run_step H st (Some (Message (STABILIZE p), a)) =
              Inr (st\<lparr>successor_id := Some f, successor_addr := Some a,
                      finger_table := (finger_table st)
                        \<lparr>as_list := (as_list (finger_table st))[0 := (f, Some a)]\<rparr>\<rparr>,
                   (a, NOTIFY (identification st) (addr st)) #
                   map (\<lambda>i. if contains (identification st) f (target (finger_table st) i)
                             then (addr st, SUCCESSOR_REP (target (finger_table st) i) f (Some a))
                             else (a, SUCCESSOR (target (finger_table st) i) (addr st)))
                       [0..<m_bits (finger_table st)])"
      using stabilize_adopts[OF len pos assms(2), of f a] step by simp
  next
    assume "p = None \<or> (\<exists>f. p = Some f \<and> \<not> contains (identification st) s f)"
    from stabilize_keeps[OF len assms(2,3) this, of a] step
    show "run_step H st (Some (Message (STABILIZE p), a)) =
              Inr (st,
                   (sa, NOTIFY (identification st) (addr st)) #
                   map (\<lambda>i. if contains (identification st) s (target (finger_table st) i)
                             then (addr st, SUCCESSOR_REP (target (finger_table st) i) s (Some sa))
                             else (sa, SUCCESSOR (target (finger_table st) i) (addr st)))
                       [0..<m_bits (finger_table st)])"
      by simp
  qed
qed

text \<open>
  Witness for C3: node 10 with successor 30 receives STABILIZE naming node 20, and
  STABILIZE naming nobody, from the address of node 30.
\<close>

theorem stabilize_adopts_reported_id_with_sender_address_witness:
  "active ring_node \<and> contains (identification ring_node) 30 20 \<and>
   (case run_step (hash_const 0) ring_node
           (Some (Message (STABILIZE (Some 20)), (''10.0.0.1'', 5003))) of
      Inl e \<Rightarrow> False
    | Inr (st', out) \<Rightarrow>
        successor_id st' = Some 20 \<and> successor_addr st' = Some (''10.0.0.1'', 5003) \<and>
        hd out = ((''10.0.0.1'', 5003), NOTIFY 10 (''10.0.0.1'', 5001)) \<and> length out = 11) \<and>
   (case run_step (hash_const 0) ring_node
           (Some (Message (STABILIZE None), (''10.0.0.1'', 5003))) of
      Inl e \<Rightarrow> False
    | Inr (st', out) \<Rightarrow>
        st' = ring_node \<and>
        hd out = ((''10.0.0.1'', 5003), NOTIFY 10 (''10.0.0.1'', 5001)) \<and> length out = 11)"
proof -
  have c: "contains (identification ring_node) 30 20"
    by (simp add: ring_node_fields contains_def)
  note thm1 = stabilize_adopts_reported_id_with_sender_address[OF active_ring_node
      ring_node_fields(3) ring_node_fields(4), where p = "Some 20" and H = "hash_const 0"
      and a = "(''10.0.0.1'', 5003)"]
  note thm2 = stabilize_adopts_reported_id_with_sender_address[OF active_ring_node
      ring_node_fields(3) ring_node_fields(4), where p = None and H = "hash_const 0"
      and a = "(''10.0.0.1'', 5003)"]
  have a: "case run_step (hash_const 0) ring_node
           (Some (Message (STABILIZE (Some 20)), (''10.0.0.1'', 5003))) of
      Inl e \<Rightarrow> False
    | Inr (st', out) \<Rightarrow>
        successor_id st' = Some 20 \<and> successor_addr st' = Some (''10.0.0.1'', 5003) \<and>
        hd out = ((''10.0.0.1'', 5003), NOTIFY 10 (''10.0.0.1'', 5001)) \<and> length out = 11"
    using thm1[THEN conjunct1, rule_format, of 20] c by (simp add: ring_node_fields)
  have b: "case run_step (hash_const 0) ring_node
           (Some (Message (STABILIZE None), (''10.0.0.1'', 5003))) of
      Inl e \<Rightarrow> False
    | Inr (st', out) \<Rightarrow>
        st' = ring_node \<and>
        hd out = ((''10.0.0.1'', 5003), NOTIFY 10 (''10.0.0.1'', 5001)) \<and> length out = 11"
    using thm2[THEN conjunct2] by (simp add: ring_node_fields)
  show ?thesis using active_ring_node c a b by simp
qed

text \<open>
  Counterexample to C3 as stated: node 30 answers PREDECESSOR with the identifier of its
  predecessor, node 20, whose address is port 5002.  Node 10 adopts identifier 20 as its
  successor together with the address the answer came from, port 5003 (node 30), which is
  not the address of the reported predecessor.
\<close>

theorem stabilize_takes_sender_address_counterexample:
  "run_step (hash_const 0) peer_node (Some (Message PREDECESSOR, addr ring_node)) =
     Inr (peer_node, [(addr ring_node, STABILIZE (Some 20))]) \<and>
   predecessor_id peer_node = Some 20 \<and>
   predecessor_addr peer_node = Some (''10.0.0.1'', 5002) \<and>
   addr peer_node = (''10.0.0.1'', 5003) \<and>
   map_sum id fst
     (run_step (hash_const 0) ring_node (Some (Message (STABILIZE (Some 20)), addr peer_node))) =
     Inr (ring_node\<lparr>successor_id := Some 20, successor_addr := Some (''10.0.0.1'', 5003),
            finger_table := (finger_table ring_node)
              \<lparr>as_list := (as_list (finger_table ring_node))[0 := (20, Some (''10.0.0.1'', 5003))]\<rparr>\<rparr>)"
proof -
  have len: "length (as_list (finger_table ring_node)) = m_bits (finger_table ring_node)"
    and pos: "0 < m_bits (finger_table ring_node)"
    and s: "successor_id ring_node = Some 30"
    and c: "contains (identification ring_node) 30 20"
    by (simp_all add: ring_node_def contains_def)
  have "run_step (hash_const 0) ring_node (Some (Message (STABILIZE (Some 20)), addr peer_node))
        = stabilize ring_node (Some 20) (addr peer_node)"
    by (simp add: run_step_def dispatch_def)
  then show ?thesis
    by (simp add: stabilize_adopts[OF len pos s c] run_step_def dispatch_def peer_node_def)
qed

subsection \<open>C4: FingerTable.find\<close>

text \<open>
  C4.  On a finger table with its \<open>m_bits > 0\<close> entries, entry \<open>i\<close> (1-indexed) being the
  list element at subscript \<open>i - 1\<close> as in \<open>update\<close>: \<open>find\<close> scans the entries in order
  and, at the first position \<open>i\<close> whose identifier satisfies
  \<open>contains(self.node_id, entry_i.id, target)\<close>, returns the address of entry \<open>i - 1\<close>,
  the list element at subscript \<open>i - 2\<close>, and not that of entry \<open>i\<close>.  For \<open>i \<ge> 2\<close> that
  is the entry just before the match; for \<open>i = 1\<close> the subscript is \<open>-1\<close>, which in
  Python is the last entry.  If no entry matches, \<open>find\<close> returns the address of the
  last entry.
\<close>

theorem find_returns_entry_before_first_match:
  assumes "length (as_list ft) = m_bits ft" and "0 < m_bits ft"
  shows "(\<forall>i. 1 \<le> i \<and> i \<le> m_bits ft \<and>
              contains (node_id ft) (fst (as_list ft ! (i - 1))) t \<and>
              (\<forall>j. 1 \<le> j \<and> j < i \<longrightarrow>
                   \<not> contains (node_id ft) (fst (as_list ft ! (j - 1))) t) \<longrightarrow>
            py_get (as_list ft) (int i - 2) =
              Inr (if i = 1 then last (as_list ft) else as_list ft ! (i - 2)) \<and>
            find_ft ft t =
              Inr (snd (if i = 1 then last (as_list ft) else as_list ft ! (i - 2)))) \<and>
         ((\<forall>j. 1 \<le> j \<and> j \<le> m_bits ft \<longrightarrow>
              \<not> contains (node_id ft) (fst (as_list ft ! (j - 1))) t) \<longrightarrow>
            find_ft ft t = Inr (snd (last (as_list ft))))"
proof -
  let ?P = "\<lambda>i. contains (node_id ft) (fst (as_list ft ! i)) t"
  have ne: "as_list ft \<noteq> []" using assms by auto
  have rng: "\<forall>i \<in> set [0..<m_bits ft]. i < length (as_list ft)" using assms by simp
  note char = find_loop_char[OF ne rng, of t, folded find_ft_def]
  have first: "py_get (as_list ft) (int i - 2) =
              Inr (if i = 1 then last (as_list ft) else as_list ft ! (i - 2)) \<and>
            find_ft ft t =
              Inr (snd (if i = 1 then last (as_list ft) else as_list ft ! (i - 2)))"
    if h1: "1 \<le> i" and h2: "i \<le> m_bits ft" and h3: "?P (i - 1)"
      and h4: "\<And>j. 1 \<le> j \<Longrightarrow> j < i \<Longrightarrow> \<not> ?P (j - 1)" for i
  proof -
    have lt: "i - 1 < m_bits ft" using h1 h2 by arith
    have before: "\<forall>j<i - 1. \<not> ?P j"
    proof (intro allI impI)
      fix j assume "j < i - 1"
      then have "1 \<le> Suc j" and "Suc j < i" by arith+
      then have "\<not> ?P (Suc j - 1)" by (rule h4)
      then show "\<not> ?P j" by simp
    qed
    have f: "List.find ?P [0..<m_bits ft] = Some (i - 1)"
      using find_upt_first[of "i - 1" "m_bits ft" ?P, OF lt h3 before] .
    have r: "find_ft ft t =
        Inr (snd (if i - 1 = 0 then last (as_list ft) else as_list ft ! (i - 1 - 1)))"
      using char f by simp
    have "(i - 1 = 0) = (i = 1)" using h1 by arith
    moreover have "i - 1 - 1 = i - 2" by simp
    ultimately have res: "find_ft ft t =
        Inr (snd (if i = 1 then last (as_list ft) else as_list ft ! (i - 2)))"
      using r by simp
    have sub: "py_get (as_list ft) (int i - 2) =
              Inr (if i = 1 then last (as_list ft) else as_list ft ! (i - 2))"
    proof (cases "i = 1")
      case True
      then show ?thesis using py_get_last[OF ne] by simp
    next
      case False
      then have e: "int i - 2 = int (i - 2)" using h1 by arith
      have bound: "i - 2 < length (as_list ft)" using h2 assms by arith
      have "py_get (as_list ft) (int (i - 2)) = Inr (as_list ft ! (i - 2))"
        using bound by (rule py_get_nat)
      then have "py_get (as_list ft) (int i - 2) = Inr (as_list ft ! (i - 2))"
        by (simp only: e)
      then show ?thesis using False by (simp only: if_False)
    qed
    show ?thesis using sub res by (rule conjI)
  qed
  have nomatch: "find_ft ft t = Inr (snd (last (as_list ft)))"
    if all: "\<And>j. 1 \<le> j \<Longrightarrow> j \<le> m_bits ft \<Longrightarrow> \<not> ?P (j - 1)"
  proof -
    have "\<forall>j<m_bits ft. \<not> ?P j"
    proof (intro allI impI)
      fix j assume "j < m_bits ft"
      then have "1 \<le> Suc j" and "Suc j \<le> m_bits ft" by arith+
      then have "\<not> ?P (Suc j - 1)" by (rule all)
      then show "\<not> ?P j" by simp
    qed
    then have "List.find ?P [0..<m_bits ft] = None"
      by (rule find_upt_None)
    then show ?thesis using char by simp
  qed
  show ?thesis
  proof (intro conjI allI impI)
    fix i
    assume h: "1 \<le> i \<and> i \<le> m_bits ft \<and> ?P (i - 1) \<and>
               (\<forall>j. 1 \<le> j \<and> j < i \<longrightarrow> \<not> ?P (j - 1))"
    have r: "py_get (as_list ft) (int i - 2) =
              Inr (if i = 1 then last (as_list ft) else as_list ft ! (i - 2)) \<and>
            find_ft ft t =
              Inr (snd (if i = 1 then last (as_list ft) else as_list ft ! (i - 2)))"
      using h by (intro first) blast+
    from r show "py_get (as_list ft) (int i - 2) =
              Inr (if i = 1 then last (as_list ft) else as_list ft ! (i - 2))" ..
    from r show "find_ft ft t =
              Inr (snd (if i = 1 then last (as_list ft) else as_list ft ! (i - 2)))" ..
  next
    assume "\<forall>j. 1 \<le> j \<and> j \<le> m_bits ft \<longrightarrow> \<not> ?P (j - 1)"
    then show "find_ft ft t = Inr (snd (last (as_list ft)))"
      by (intro nomatch) blast
  qed
qed

text \<open>
  Witness for C4: a table of three entries with identifiers 5, 9, 20 on node 0; target 7
  first matches the second entry and yields the first entry's address, target 3 matches
  the first entry and yields the last entry's address, target 50 matches nothing and
  yields the last entry's address.
\<close>

theorem find_returns_entry_before_first_match_witness:
  "find_ft \<lparr>as_list = [(5, Some (''a'', 1)), (9, Some (''b'', 2)), (20, Some (''c'', 3))],
            m_bits = 3, node_id = 0, node_addr = (''n'', 0)\<rparr> 7 = Inr (Some (''a'', 1)) \<and>
   find_ft \<lparr>as_list = [(5, Some (''a'', 1)), (9, Some (''b'', 2)), (20, Some (''c'', 3))],
            m_bits = 3, node_id = 0, node_addr = (''n'', 0)\<rparr> 3 = Inr (Some (''c'', 3)) \<and>
   find_ft \<lparr>as_list = [(5, Some (''a'', 1)), (9, Some (''b'', 2)), (20, Some (''c'', 3))],
            m_bits = 3, node_id = 0, node_addr = (''n'', 0)\<rparr> 50 = Inr (Some (''c'', 3))"
proof -
  let ?ft = "\<lparr>as_list = [(5, Some (''a'', 1)), (9, Some (''b'', 2)), (20, Some (''c'', 3))],
            m_bits = 3, node_id = 0, node_addr = (''n'', 0::nat)\<rparr>"
  have len: "length (as_list ?ft) = m_bits ?ft" by simp
  have pos: "0 < m_bits ?ft" by simp
  note at7 = find_returns_entry_before_first_match[OF len pos, of 7]
  note at3 = find_returns_entry_before_first_match[OF len pos, of 3]
  note at50 = find_returns_entry_before_first_match[OF len pos, of 50]
  have less2: "\<And>j::nat. (1 \<le> j \<and> j < 2) = (j = 1)" by arith
  have a: "find_ft ?ft 7 = Inr (Some (''a'', 1))"
    using at7[THEN conjunct1, rule_format, of 2] by (simp add: contains_def less2)
  have b: "find_ft ?ft 3 = Inr (Some (''c'', 3))"
    using at3[THEN conjunct1, rule_format, of 1] by (simp add: contains_def)
  have none: "\<forall>j. 1 \<le> j \<and> j \<le> m_bits ?ft \<longrightarrow>
      \<not> contains (node_id ?ft) (fst (as_list ?ft ! (j - 1))) 50"
  proof (intro allI impI)
    fix j :: nat assume "1 \<le> j \<and> j \<le> m_bits ?ft"
    then have "j = 1 \<or> j = 2 \<or> j = 3" by simp arith
    then show "\<not> contains (node_id ?ft) (fst (as_list ?ft ! (j - 1))) 50"
      by (auto simp: contains_def)
  qed
  have c: "find_ft ?ft 50 = Inr (Some (''c'', 3))"
    using at50[THEN conjunct2, THEN mp, OF none] by simp
  show ?thesis using a b c by simp
qed

subsection \<open>C5: PUT on the node that owns the key\<close>

text \<open>
  C5, as amended.  When the key's hash does not fall between this node and its successor
  (that test comes first and forwards the PUT) and does fall between the predecessor and
  this node: a PUT for a key that is not in the keystore stores the value under the key and
  sends ACK to the requester's address (the \<open>from\<close> field, or the sender when the field
  is absent); a PUT for a key already present sends NACK to the requester's address and
  leaves the whole node state, the keystore included, unchanged.
\<close>

theorem owned_put_is_insert_only:
  assumes "successor_id st = Some s" and "\<not> contains (identification st) s (H k)"
    and "predecessor_id st = Some p" and "contains p (identification st) (H k)"
  shows "(keystore st k = None \<longrightarrow>
            run_step H st (Some (Message (PUT k v f), a)) =
              Inr (st\<lparr>keystore := (keystore st)(k \<mapsto> v)\<rparr>,
                   [(case f of None \<Rightarrow> a | Some x \<Rightarrow> x, ACK None)])) \<and>
         (keystore st k \<noteq> None \<longrightarrow>
            run_step H st (Some (Message (PUT k v f), a)) =
              Inr (st, [(case f of None \<Rightarrow> a | Some x \<Rightarrow> x, NACK)]))"
  using assms by (auto simp: run_step_def dispatch_def put_def Let_def)

text \<open>
  Witness for C5: node 10 with predecessor 20 and successor 30 and a key hashed to 5,
  first with an empty keystore, then with the key already stored.
\<close>

theorem owned_put_is_insert_only_witness:
  "\<not> contains (identification ring_node) 30 5 \<and> contains 20 (identification ring_node) 5 \<and>
   run_step (hash_const 5) ring_node
     (Some (Message (PUT ''k'' ''v'' None), (''10.0.0.9'', 6000))) =
     Inr (ring_node\<lparr>keystore := (keystore ring_node)(''k'' \<mapsto> ''v'')\<rparr>,
          [((''10.0.0.9'', 6000), ACK None)]) \<and>
   run_step (hash_const 5) (ring_node\<lparr>keystore := [''k'' \<mapsto> ''old'']\<rparr>)
     (Some (Message (PUT ''k'' ''v'' (Some (''10.0.0.8'', 7000))), (''10.0.0.9'', 6000))) =
     Inr (ring_node\<lparr>keystore := [''k'' \<mapsto> ''old'']\<rparr>, [((''10.0.0.8'', 7000), NACK)])"
proof -
  let ?st2 = "ring_node\<lparr>keystore := [''k'' \<mapsto> ''old'']\<rparr>"
  have n: "\<not> contains (identification ring_node) 30 ((hash_const 5) ''k'')"
    and o: "contains 20 (identification ring_node) ((hash_const 5) ''k'')"
    by (simp_all add: ring_node_fields contains_def)
  have n2: "\<not> contains (identification ?st2) 30 ((hash_const 5) ''k'')"
    and o2: "contains 20 (identification ?st2) ((hash_const 5) ''k'')"
    and s2: "successor_id ?st2 = Some 30" and p2: "predecessor_id ?st2 = Some 20"
    by (simp_all add: ring_node_fields contains_def)
  from owned_put_is_insert_only[where H = "hash_const 5" and k = "''k''" and v = "''v''"
      and f = None and a = "(''10.0.0.9'', 6000)",
      OF ring_node_fields(3) n ring_node_fields(5) o]
  have a: "run_step (hash_const 5) ring_node
     (Some (Message (PUT ''k'' ''v'' None), (''10.0.0.9'', 6000))) =
     Inr (ring_node\<lparr>keystore := (keystore ring_node)(''k'' \<mapsto> ''v'')\<rparr>,
          [((''10.0.0.9'', 6000), ACK None)])"
    by (simp add: ring_node_fields)
  from owned_put_is_insert_only[where H = "hash_const 5" and k = "''k''" and v = "''v''"
      and f = "Some (''10.0.0.8'', 7000)" and a = "(''10.0.0.9'', 6000)",
      OF s2 n2 p2 o2]
  have b: "run_step (hash_const 5) ?st2
     (Some (Message (PUT ''k'' ''v'' (Some (''10.0.0.8'', 7000))), (''10.0.0.9'', 6000))) =
     Inr (?st2, [((''10.0.0.8'', 7000), NACK)])"
    by simp
  show ?thesis using n o a b by simp
qed

text \<open>
  Counterexample to C5 as stated: on node 10 with predecessor 20 and successor 30, a key
  hashed to 25 falls between the predecessor and the node (the interval from 20 wraps
  around to 10) and is not in the keystore, yet the PUT is forwarded to the successor:
  nothing is stored and no ACK is sent.
\<close>

theorem owned_put_forwarded_counterexample:
  "predecessor_id ring_node = Some 20 \<and>
   contains 20 (identification ring_node) 25 \<and>
   keystore ring_node ''k'' = None \<and>
   run_step (hash_const 25) ring_node (Some (Message (PUT ''k'' ''v'' None), (''10.0.0.9'', 6000))) =
     Inr (ring_node, [((''10.0.0.1'', 5003), PUT ''k'' ''v'' (Some (''10.0.0.9'', 6000)))])"
  by (simp add: ring_node_def contains_def run_step_def dispatch_def put_def)


subsection \<open>C6: JOIN_REQ\<close>

text \<open>
  C6.  On a running node with successor \<open>(s, sa)\<close>, processing
  \<open>JOIN_REQ(requester_id, requester_addr)\<close> does exactly one of three things: if the node
  is its own successor it adopts the requester as successor, fills every finger-table
  entry with the requester and replies JOIN_REP naming itself; else if the requester's
  identifier falls between the node and its successor it replies JOIN_REP with the old
  successor's identifier and address, adopts the requester as successor and fills the
  finger table with it; otherwise it forwards the JOIN_REQ unchanged to its successor and
  its state stays as it was.
\<close>

theorem join_req_three_ways:
  assumes "active st" and "successor_id st = Some s" and "successor_addr st = Some sa"
  shows "run_step H st (Some (Message (JOIN_REQ ra rid), a)) =
           (if s = identification st then
              Inr (st\<lparr>successor_id := Some rid, successor_addr := Some ra,
                      finger_table := (finger_table st)
                        \<lparr>as_list := replicate (m_bits (finger_table st)) (rid, Some ra)\<rparr>\<rparr>,
                   [(ra, JOIN_REP (identification st) (Some (addr st)))])
            else if contains (identification st) s rid then
              Inr (st\<lparr>successor_id := Some rid, successor_addr := Some ra,
                      finger_table := (finger_table st)
                        \<lparr>as_list := replicate (m_bits (finger_table st)) (rid, Some ra)\<rparr>\<rparr>,
                   [(ra, JOIN_REP s (Some sa))])
            else Inr (st, [(sa, JOIN_REQ ra rid)]))"
proof -
  have len: "length (as_list (finger_table st)) = m_bits (finger_table st)"
    using assms(1) by (simp add: active_def)
  show ?thesis
    using assms(2,3) by (auto simp: run_step_def dispatch_def node_join_def fill_ok[OF len])
qed

text \<open>
  Witness for C6: the node that is alone in its ring admits node 40; node 10 with
  successor 30 splices in node 20 and forwards the request of node 50.
\<close>

theorem join_req_three_ways_witness:
  "active solo_node \<and> active ring_node \<and>
   run_step (hash_const 0) solo_node
     (Some (Message (JOIN_REQ (''10.0.0.1'', 5004) 40), (''10.0.0.1'', 5004))) =
     Inr (solo_node\<lparr>successor_id := Some 40, successor_addr := Some (''10.0.0.1'', 5004),
            finger_table := (finger_table solo_node)
              \<lparr>as_list := replicate 10 (40, Some (''10.0.0.1'', 5004))\<rparr>\<rparr>,
          [((''10.0.0.1'', 5004), JOIN_REP 100 (Some (''10.0.0.1'', 5000)))]) \<and>
   run_step (hash_const 0) ring_node
     (Some (Message (JOIN_REQ (''10.0.0.1'', 5002) 20), (''10.0.0.1'', 5002))) =
     Inr (ring_node\<lparr>successor_id := Some 20, successor_addr := Some (''10.0.0.1'', 5002),
            finger_table := (finger_table ring_node)
              \<lparr>as_list := replicate 10 (20, Some (''10.0.0.1'', 5002))\<rparr>\<rparr>,
          [((''10.0.0.1'', 5002), JOIN_REP 30 (Some (''10.0.0.1'', 5003)))]) \<and>
   run_step (hash_const 0) ring_node
     (Some (Message (JOIN_REQ (''10.0.0.1'', 5005) 50), (''10.0.0.1'', 5005))) =
     Inr (ring_node, [((''10.0.0.1'', 5003), JOIN_REQ (''10.0.0.1'', 5005) 50)])"
proof -
  note solo = join_req_three_ways[OF active_solo_node solo_node_fields(3) solo_node_fields(4),
      where H = "hash_const 0" and ra = "(''10.0.0.1'', 5004)" and rid = 40
        and a = "(''10.0.0.1'', 5004)"]
  note ring20 = join_req_three_ways[OF active_ring_node ring_node_fields(3) ring_node_fields(4),
      where H = "hash_const 0" and ra = "(''10.0.0.1'', 5002)" and rid = 20
        and a = "(''10.0.0.1'', 5002)"]
  note ring50 = join_req_three_ways[OF active_ring_node ring_node_fields(3) ring_node_fields(4),
      where H = "hash_const 0" and ra = "(''10.0.0.1'', 5005)" and rid = 50
        and a = "(''10.0.0.1'', 5005)"]
  show ?thesis
    using solo ring20 ring50 active_solo_node active_ring_node
    by (simp add: solo_node_fields ring_node_fields contains_def)
qed

subsection \<open>C7: GET decides as PUT does\<close>

text \<open>
  C7.  For every node state, key, value and requester address, \<open>get\<close> takes the branch
  \<open>put\<close> takes.  \<open>put\<close> forwards the PUT to an address \<open>d\<close> exactly when \<open>get\<close>
  forwards the GET to the same \<open>d\<close>; \<open>put\<close> handles the key locally exactly when
  \<open>get\<close> does (\<open>put\<close> stores and sends ACK exactly when \<open>get\<close> sends NACK for the
  missing key, \<open>put\<close> sends NACK exactly when \<open>get\<close> sends ACK with the stored value);
  one raises exactly when the other raises the same error.  When the key's hash falls
  between the node and its successor both forward to the successor's address; when it
  falls in neither interval both forward to the hop that \<open>find\<close> returns for the hash.
\<close>

theorem get_routes_exactly_as_put:
  "(\<forall>d. (put H st k v a = Inr (st, [(d, PUT k v (Some a))])) =
         (get H st k a = Inr [(d, GET k (Some a))])) \<and>
   ((put H st k v a = Inr (st\<lparr>keystore := (keystore st)(k \<mapsto> v)\<rparr>, [(a, ACK None)])) =
    (get H st k a = Inr [(a, NACK)])) \<and>
   ((put H st k v a = Inr (st, [(a, NACK)])) =
    (\<exists>w. keystore st k = Some w \<and> get H st k a = Inr [(a, ACK (Some w))])) \<and>
   (\<forall>e. (put H st k v a = Inl e) = (get H st k a = Inl e)) \<and>
   (\<forall>s. successor_id st = Some s \<and> contains (identification st) s (H k) \<longrightarrow>
      put H st k v a =
        and_then (send (successor_addr st) (PUT k v (Some a))) (\<lambda>out. Inr (st, out)) \<and>
      get H st k a = send (successor_addr st) (GET k (Some a))) \<and>
   (\<forall>s p. successor_id st = Some s \<and> \<not> contains (identification st) s (H k) \<and>
          predecessor_id st = Some p \<and> \<not> contains p (identification st) (H k) \<longrightarrow>
      put H st k v a =
        and_then (find_ft (finger_table st) (H k)) (\<lambda>hop.
        and_then (send hop (PUT k v (Some a))) (\<lambda>out. Inr (st, out))) \<and>
      get H st k a =
        and_then (find_ft (finger_table st) (H k)) (\<lambda>hop. send hop (GET k (Some a))))"
  by (auto simp: put_def get_def Let_def and_then_def send_def
      split: option.splits sum.splits if_splits)

text \<open>
  Witness for C7: on node 10 with predecessor 20 and successor 30, a key hashed to 25 is
  forwarded to the successor by both and a key hashed to 5 is handled locally by both;
  with predecessor 5, a key hashed to 50 is forwarded by both to the hop that \<open>find\<close>
  returns.
\<close>

theorem get_routes_exactly_as_put_witness:
  "put (hash_const 25) ring_node ''k'' ''v'' (''10.0.0.9'', 6000) =
     Inr (ring_node, [((''10.0.0.1'', 5003), PUT ''k'' ''v'' (Some (''10.0.0.9'', 6000)))]) \<and>
   get (hash_const 25) ring_node ''k'' (''10.0.0.9'', 6000) =
     Inr [((''10.0.0.1'', 5003), GET ''k'' (Some (''10.0.0.9'', 6000)))] \<and>
   put (hash_const 5) ring_node ''k'' ''v'' (''10.0.0.9'', 6000) =
     Inr (ring_node\<lparr>keystore := (keystore ring_node)(''k'' \<mapsto> ''v'')\<rparr>,
          [((''10.0.0.9'', 6000), ACK None)]) \<and>
   get (hash_const 5) ring_node ''k'' (''10.0.0.9'', 6000) = Inr [((''10.0.0.9'', 6000), NACK)] \<and>
   put (hash_const 50) (ring_node\<lparr>predecessor_id := Some 5\<rparr>) ''k'' ''v'' (''10.0.0.9'', 6000) =
     Inr (ring_node\<lparr>predecessor_id := Some 5\<rparr>,
          [((''10.0.0.1'', 5003), PUT ''k'' ''v'' (Some (''10.0.0.9'', 6000)))]) \<and>
   get (hash_const 50) (ring_node\<lparr>predecessor_id := Some 5\<rparr>) ''k'' (''10.0.0.9'', 6000) =
     Inr [((''10.0.0.1'', 5003), GET ''k'' (Some (''10.0.0.9'', 6000)))]"
proof -
  let ?c = "(''10.0.0.9'', 6000::nat)"
  let ?st3 = "ring_node\<lparr>predecessor_id := Some 5\<rparr>"
  have p1: "put (hash_const 25) ring_node ''k'' ''v'' ?c =
     Inr (ring_node, [((''10.0.0.1'', 5003), PUT ''k'' ''v'' (Some ?c))])"
    by (simp add: put_def ring_node_fields contains_def)
  have g1: "get (hash_const 25) ring_node ''k'' ?c = Inr [((''10.0.0.1'', 5003), GET ''k'' (Some ?c))]"
    using get_routes_exactly_as_put[of "hash_const 25" ring_node "''k''" "''v''" ?c,
        THEN conjunct1, rule_format, of "(''10.0.0.1'', 5003)"] p1
    by simp
  have p2: "put (hash_const 5) ring_node ''k'' ''v'' ?c =
     Inr (ring_node\<lparr>keystore := (keystore ring_node)(''k'' \<mapsto> ''v'')\<rparr>, [(?c, ACK None)])"
    by (simp add: put_def ring_node_fields contains_def)
  have g2: "get (hash_const 5) ring_node ''k'' ?c = Inr [(?c, NACK)]"
    using get_routes_exactly_as_put[of "hash_const 5" ring_node "''k''" "''v''" ?c,
        THEN conjunct2, THEN conjunct1] p2
    by simp
  have find: "find_ft (finger_table ?st3) 50 = Inr (Some (''10.0.0.1'', 5003))"
    by (simp add: find_ft_def ring_node_fields upt10 replicate10 py_get_def subscript_def
        contains_def)
  have hyp: "successor_id ?st3 = Some 30 \<and> \<not> contains (identification ?st3) 30 ((hash_const 50) ''k'') \<and>
          predecessor_id ?st3 = Some 5 \<and> \<not> contains 5 (identification ?st3) ((hash_const 50) ''k'')"
    by (simp add: ring_node_fields contains_def)
  have pg3: "put (hash_const 50) ?st3 ''k'' ''v'' ?c =
        and_then (find_ft (finger_table ?st3) ((hash_const 50) ''k'')) (\<lambda>hop.
        and_then (send hop (PUT ''k'' ''v'' (Some ?c))) (\<lambda>out. Inr (?st3, out))) \<and>
      get (hash_const 50) ?st3 ''k'' ?c =
        and_then (find_ft (finger_table ?st3) ((hash_const 50) ''k'')) (\<lambda>hop. send hop (GET ''k'' (Some ?c)))"
    using get_routes_exactly_as_put[of "hash_const 50" ?st3 "''k''" "''v''" ?c] hyp
    by blast
  have p3: "put (hash_const 50) ?st3 ''k'' ''v'' ?c =
     Inr (?st3, [((''10.0.0.1'', 5003), PUT ''k'' ''v'' (Some ?c))])"
    and g3: "get (hash_const 50) ?st3 ''k'' ?c = Inr [((''10.0.0.1'', 5003), GET ''k'' (Some ?c))]"
    using pg3 find by simp_all
  show ?thesis using p1 g1 p2 g2 p3 g3 by simp
qed

subsection \<open>C8: envelopes the loop cannot read\<close>




subsection \<open>C9: construction without a bootstrap address\<close>

text \<open>
  C9.  A node constructed with no bootstrap address (\<open>dht_address = None\<close>) is inside the
  DHT at once, its successor is its own identifier and address, and its predecessor is
  unknown (both predecessor attributes are \<open>None\<close>).
\<close>

theorem singleton_node_is_active:
  "inside_dht (DHTNode_init H S address None) \<and>
   identification (DHTNode_init H S address None) = H (S address) \<and>
   addr (DHTNode_init H S address None) = address \<and>
   successor_id (DHTNode_init H S address None) =
     Some (identification (DHTNode_init H S address None)) \<and>
   successor_addr (DHTNode_init H S address None) = Some address \<and>
   predecessor_id (DHTNode_init H S address None) = None \<and>
   predecessor_addr (DHTNode_init H S address None) = None"
  by (simp add: DHTNode_init_def Let_def)

subsection \<open>C10: what changes the key/value store\<close>

text \<open>
  C10.  An iteration of the processing loop that completes leaves the keystore exactly as
  it was, unless the message is a PUT for a key that is not in the keystore and that this
  node handles itself (the key's hash does not fall between the node and its successor and
  does fall between the predecessor and the node); then the keystore gains that one
  binding.  GET, JOIN_REQ, NOTIFY, STABILIZE, SUCCESSOR, SUCCESSOR_REP, PREDECESSOR, a
  timeout, a forwarded PUT and a refused PUT change nothing, and neither does an iteration
  of the join loop, JOIN_REP included.
\<close>

theorem keystore_changes_only_by_owned_put:
  "(run_step H st rcv = Inr (st', out) \<longrightarrow>
      keystore st' = keystore st \<or>
      (\<exists>k v f a. rcv = Some (Message (PUT k v f), a) \<and> keystore st k = None \<and>
         (\<exists>s p. successor_id st = Some s \<and> \<not> contains (identification st) s (H k) \<and>
                predecessor_id st = Some p \<and> contains p (identification st) (H k)) \<and>
         keystore st' = (keystore st)(k \<mapsto> v))) \<and>
   (join_step st rcv = Inr (st', out) \<longrightarrow> keystore st' = keystore st)"
proof (intro conjI impI)
  assume run: "run_step H st rcv = Inr (st', out)"
  show "keystore st' = keystore st \<or>
      (\<exists>k v f a. rcv = Some (Message (PUT k v f), a) \<and> keystore st k = None \<and>
         (\<exists>s p. successor_id st = Some s \<and> \<not> contains (identification st) s (H k) \<and>
                predecessor_id st = Some p \<and> contains p (identification st) (H k)) \<and>
         keystore st' = (keystore st)(k \<mapsto> v))"
  proof (cases rcv)
    case None
    then show ?thesis using run
      by (auto simp: run_step_def and_then_def split: sum.splits)
  next
    case (Some pa)
    obtain payload a where pa: "pa = (payload, a)" by (cases pa)
    show ?thesis
    proof (cases payload)
      case (Message m)
      then have "dispatch H st m a = Inr (st', out)"
        using run Some pa by (simp add: run_step_def)
      from dispatch_keystore[OF this] show ?thesis using Some pa Message by auto
    next
      case (MissingArgs meth)
      then show ?thesis using run Some pa
        by (auto simp: run_step_def dispatch_def and_then_def split: if_splits sum.splits)
    qed (use run Some pa in \<open>auto simp: run_step_def\<close>)
  qed
next
  assume "join_step st rcv = Inr (st', out)"
  then show "keystore st' = keystore st"
    by (auto simp: join_step_def and_then_def
        split: if_splits sum.splits option.splits received.splits msg.splits)
qed

text \<open>
  Witness for C10: on node 10 a PUT for a key hashed to 5 adds the binding, a GET for a
  stored key leaves the keystore alone, and the JOIN_REP that admits a joining node leaves
  its keystore alone.
\<close>

theorem keystore_changes_only_by_owned_put_witness:
  "run_step (hash_const 5) ring_node
     (Some (Message (PUT ''k'' ''v'' None), (''10.0.0.9'', 6000))) =
     Inr (ring_node\<lparr>keystore := (keystore ring_node)(''k'' \<mapsto> ''v'')\<rparr>,
          [((''10.0.0.9'', 6000), ACK None)]) \<and>
   keystore ring_node ''k'' = None \<and>
   contains 20 (identification ring_node) 5 \<and>
   run_step (hash_const 5) (ring_node\<lparr>keystore := [''k'' \<mapsto> ''old'']\<rparr>)
     (Some (Message (GET ''k'' None), (''10.0.0.9'', 6000))) =
     Inr (ring_node\<lparr>keystore := [''k'' \<mapsto> ''old'']\<rparr>,
          [((''10.0.0.9'', 6000), ACK (Some ''old''))]) \<and>
   (case join_step joining_node
           (Some (Message (JOIN_REP 100 (Some (''10.0.0.1'', 5000))), (''10.0.0.1'', 5000))) of
      Inl e \<Rightarrow> False
    | Inr (st', out) \<Rightarrow> inside_dht st' \<and> keystore st' = keystore joining_node)"
proof -
  let ?c = "(''10.0.0.9'', 6000::nat)"
  let ?st1 = "ring_node\<lparr>keystore := (keystore ring_node)(''k'' \<mapsto> ''v'')\<rparr>"
  let ?st2 = "ring_node\<lparr>keystore := [''k'' \<mapsto> ''old'']\<rparr>"
  let ?rep = "Some (Message (JOIN_REP 100 (Some (''10.0.0.1'', 5000))), (''10.0.0.1'', 5000::nat))"
  have r1: "run_step (hash_const 5) ring_node (Some (Message (PUT ''k'' ''v'' None), ?c)) =
      Inr (?st1, [(?c, ACK None)])"
    by (simp add: run_step_def dispatch_def put_def ring_node_fields contains_def)
  have "keystore ?st1 \<noteq> keystore ring_node"
    by (simp add: ring_node_fields fun_eq_iff)
  with keystore_changes_only_by_owned_put[of "hash_const 5" ring_node
      "Some (Message (PUT ''k'' ''v'' None), ?c)" ?st1 "[(?c, ACK None)]"] r1
  have own: "keystore ring_node ''k'' = None \<and> contains 20 (identification ring_node) 5"
    by (auto simp: ring_node_fields)
  have r2: "run_step (hash_const 5) ?st2 (Some (Message (GET ''k'' None), ?c)) =
      Inr (?st2, [(?c, ACK (Some ''old''))])"
    by (simp add: run_step_def dispatch_def get_def ring_node_fields contains_def)
  have lenj: "length (as_list (finger_table joining_node)) = m_bits (finger_table joining_node)"
    by (simp add: joining_node_fields)
  obtain st3 out3 where j: "join_step joining_node ?rep = Inr (st3, out3)"
    and i3: "inside_dht st3"
    using lenj by (simp add: join_step_def fill_ok joining_node_fields)
  from keystore_changes_only_by_owned_put[where st = joining_node and rcv = ?rep
      and st' = st3 and out = out3, THEN conjunct2, rule_format, OF j]
  have k3: "keystore st3 = keystore joining_node" .
  show ?thesis using r1 own r2 j i3 k3 by simp
qed

end
